theory Spec2Isabelle
  imports Main "HOL-Library.Char_ord" "HOL-Library.List_Lexorder"
begin

section \<open>Snapshot documents\<close>

text \<open>
  A snapshot is what \<^verbatim>\<open>json.load\<close> returns: \<^verbatim>\<open>None\<close>, a bool, an int, a
  str, a list or a dict with str keys. A dict is the list of its items in insertion
  order. A string is the UTF-8 encoding of the Python string: the order of two byte
  strings is then Python's order by code point, and a substring is a substring. JSON
  numbers with a fraction or an exponent (Python floats) are not part of the model.
\<close>

datatype json =
    JNull
  | JBool bool
  | JInt int
  | JStr string
  | JList "json list"
  | JObj "(string \<times> json) list"

text \<open>The keys of a dict are distinct, at every depth.\<close>

fun wf_json :: "json \<Rightarrow> bool" and wf_items :: "(string \<times> json) list \<Rightarrow> bool" where
  "wf_json (JList xs) = list_all wf_json xs"
| "wf_json (JObj kvs) = (distinct (map fst kvs) \<and> wf_items kvs)"
| "wf_json _ = True"
| "wf_items [] = True"
| "wf_items (kv # kvs) = (wf_json (snd kv) \<and> wf_items kvs)"

section \<open>Exceptions\<close>

datatype pyerr = AttributeError | TypeError | ValueError

definition bnd :: "pyerr + 'a \<Rightarrow> ('a \<Rightarrow> pyerr + 'b) \<Rightarrow> pyerr + 'b" where
  "bnd m f = (case m of Inl e \<Rightarrow> Inl e | Inr x \<Rightarrow> f x)"

section \<open>The Python operations the comparators use\<close>

text \<open>\<^verbatim>\<open>d.get(k, default)\<close>: only a dict has \<^verbatim>\<open>get\<close>.\<close>

fun py_get :: "json \<Rightarrow> string \<Rightarrow> json \<Rightarrow> pyerr + json" where
  "py_get (JObj kvs) k dflt = Inr (case map_of kvs k of None \<Rightarrow> dflt | Some v \<Rightarrow> v)"
| "py_get _ k dflt = Inl AttributeError"

text \<open>Truth value testing (\<^verbatim>\<open>if x\<close>, \<^verbatim>\<open>not x\<close>, \<^verbatim>\<open>x and y\<close>).\<close>

fun py_truthy :: "json \<Rightarrow> bool" where
  "py_truthy JNull = False"
| "py_truthy (JBool b) = b"
| "py_truthy (JInt i) = (i \<noteq> 0)"
| "py_truthy (JStr s) = (s \<noteq> [])"
| "py_truthy (JList xs) = (xs \<noteq> [])"
| "py_truthy (JObj kvs) = (kvs \<noteq> [])"

text \<open>
  \<^verbatim>\<open>a == b\<close>: a bool is the number 0 or 1, lists are equal element by element, dicts
  are equal when they have the same number of keys and every key of the left has an
  equal value on the right.
\<close>

fun py_eq :: "json \<Rightarrow> json \<Rightarrow> bool"
  and py_eq_list :: "json list \<Rightarrow> json list \<Rightarrow> bool"
  and py_eq_items :: "(string \<times> json) list \<Rightarrow> (string \<times> json) list \<Rightarrow> bool" where
  "py_eq JNull b = (b = JNull)"
| "py_eq (JBool x) b =
     (case b of JBool y \<Rightarrow> x = y | JInt j \<Rightarrow> (if x then 1 else 0) = j | _ \<Rightarrow> False)"
| "py_eq (JInt i) b =
     (case b of JBool y \<Rightarrow> i = (if y then 1 else 0) | JInt j \<Rightarrow> i = j | _ \<Rightarrow> False)"
| "py_eq (JStr s) b = (b = JStr s)"
| "py_eq (JList xs) b = (case b of JList ys \<Rightarrow> py_eq_list xs ys | _ \<Rightarrow> False)"
| "py_eq (JObj xs) b =
     (case b of JObj ys \<Rightarrow> length xs = length ys \<and> py_eq_items xs ys | _ \<Rightarrow> False)"
| "py_eq_list [] ys = (ys = [])"
| "py_eq_list (x # xs) ys =
     (case ys of [] \<Rightarrow> False | y # ys' \<Rightarrow> py_eq x y \<and> py_eq_list xs ys')"
| "py_eq_items [] ys = True"
| "py_eq_items (kv # xs) ys =
     (case map_of ys (fst kv) of None \<Rightarrow> False
      | Some w \<Rightarrow> py_eq (snd kv) w \<and> py_eq_items xs ys)"

text \<open>
  \<^verbatim>\<open>a < b\<close>: defined between numbers (bools included), between strings and between
  lists (at the first pair of unequal elements, else by length); TypeError otherwise.
  \<^verbatim>\<open>a > b\<close> is \<^verbatim>\<open>b < a\<close>.
\<close>

fun py_lt :: "json \<Rightarrow> json \<Rightarrow> pyerr + bool"
  and py_lt_list :: "json list \<Rightarrow> json list \<Rightarrow> pyerr + bool" where
  "py_lt (JInt i) (JInt j) = Inr (i < j)"
| "py_lt (JInt i) (JBool c) = Inr (i < (if c then 1 else 0))"
| "py_lt (JBool b) (JInt j) = Inr ((if b then 1 else 0) < j)"
| "py_lt (JBool b) (JBool c) = Inr (\<not> b \<and> c)"
| "py_lt (JStr s) (JStr t) = Inr (s < t)"
| "py_lt (JList xs) (JList ys) = py_lt_list xs ys"
| "py_lt _ _ = Inl TypeError"
| "py_lt_list [] ys = Inr (ys \<noteq> [])"
| "py_lt_list (x # xs) [] = Inr False"
| "py_lt_list (x # xs) (y # ys) = (if py_eq x y then py_lt_list xs ys else py_lt x y)"

definition py_gt :: "json \<Rightarrow> json \<Rightarrow> pyerr + bool" where
  "py_gt a b = py_lt b a"

text \<open>\<^verbatim>\<open>a + b\<close> and \<^verbatim>\<open>a - b\<close> where the source computes with numbers.\<close>

fun py_num :: "json \<Rightarrow> pyerr + int" where
  "py_num (JInt i) = Inr i"
| "py_num (JBool b) = Inr (if b then 1 else 0)"
| "py_num _ = Inl TypeError"

text \<open>
  \<^verbatim>\<open>a + 10\<close>, with a number on the right: defined when \<open>a\<close> is a number;
  \<^verbatim>\<open>a - b\<close>: defined between numbers. Strings, lists, dicts and \<^verbatim>\<open>None\<close> raise
  TypeError in both.
\<close>

definition py_add :: "json \<Rightarrow> int \<Rightarrow> pyerr + json" where
  "py_add a n = bnd (py_num a) (\<lambda>i. Inr (JInt (i + n)))"

definition py_sub :: "json \<Rightarrow> json \<Rightarrow> pyerr + json" where
  "py_sub a b = bnd (py_num a) (\<lambda>i. bnd (py_num b) (\<lambda>j. Inr (JInt (i - j))))"

text \<open>
  \<^verbatim>\<open>int(x)\<close>. A number converts; \<^verbatim>\<open>None\<close>, a list and a dict raise TypeError; a
  string converts or raises ValueError. Which strings convert, and to which number, is
  Python's own table of digits and white space: it is the parameter \<open>int_of_str\<close>,
  with \<open>None\<close> for ValueError.
\<close>

fun py_int :: "(string \<Rightarrow> int option) \<Rightarrow> json \<Rightarrow> pyerr + int" where
  "py_int int_of_str (JInt i) = Inr i"
| "py_int int_of_str (JBool b) = Inr (if b then 1 else 0)"
| "py_int int_of_str (JStr s) =
     (case int_of_str s of None \<Rightarrow> Inl ValueError | Some n \<Rightarrow> Inr n)"
| "py_int int_of_str _ = Inl TypeError"

text \<open>
  The characters of a string: in UTF-8 a character is one byte that is no continuation
  byte, followed by the continuation bytes (\<open>0x80\<close> to \<open>0xBF\<close>) up to the next
  such byte.
\<close>

definition is_continuation :: "char \<Rightarrow> bool" where
  "is_continuation c = (CHR 0x80 \<le> c \<and> c < CHR 0xC0)"

fun utf8_chars :: "string \<Rightarrow> string list" where
  "utf8_chars [] = []"
| "utf8_chars (c # cs) =
     (case utf8_chars cs of
        [] \<Rightarrow> [[c]]
      | u # us \<Rightarrow> if is_continuation (hd cs) then (c # u) # us else [c] # u # us)"

text \<open>
  Iteration (\<^verbatim>\<open>for x in v\<close>, \<^verbatim>\<open>set(v)\<close>): a list yields its elements, a string its
  characters, a dict its keys; \<^verbatim>\<open>None\<close> and numbers are not iterable.
\<close>

fun py_iter :: "json \<Rightarrow> pyerr + json list" where
  "py_iter (JList xs) = Inr xs"
| "py_iter (JStr s) = Inr (map JStr (utf8_chars s))"
| "py_iter (JObj kvs) = Inr (map (\<lambda>kv. JStr (fst kv)) kvs)"
| "py_iter _ = Inl TypeError"

text \<open>
  Sets and dicts built by the comparators. Lists and dicts are unhashable: putting one
  into a set, or using it as a key, raises TypeError. A set is the list of its elements,
  no two of them equal (\<^verbatim>\<open>==\<close>); the list order stands for the iteration order, which
  Python leaves unspecified.
\<close>

fun py_hashable :: "json \<Rightarrow> bool" where
  "py_hashable (JList xs) = False"
| "py_hashable (JObj kvs) = False"
| "py_hashable _ = True"

definition py_mem :: "json \<Rightarrow> json list \<Rightarrow> bool" where
  "py_mem x s = list_ex (\<lambda>y. py_eq y x) s"

definition set_add :: "json list \<Rightarrow> json \<Rightarrow> json list" where
  "set_add s x = (if py_mem x s then s else s @ [x])"

fun set_of_list :: "json list \<Rightarrow> json list \<Rightarrow> pyerr + json list" where
  "set_of_list s [] = Inr s"
| "set_of_list s (x # xs) =
     (if py_hashable x then set_of_list (set_add s x) xs else Inl TypeError)"

definition py_set :: "json \<Rightarrow> pyerr + json list" where
  "py_set v = bnd (py_iter v) (set_of_list [])"

definition set_discard :: "json list \<Rightarrow> json \<Rightarrow> json list" where
  "set_discard s x = filter (\<lambda>y. \<not> py_eq y x) s"

definition set_diff :: "json list \<Rightarrow> json list \<Rightarrow> json list" where
  "set_diff a b = filter (\<lambda>x. \<not> py_mem x b) a"

definition set_eq :: "json list \<Rightarrow> json list \<Rightarrow> bool" where
  "set_eq a b = (length a = length b \<and> list_all (\<lambda>x. py_mem x b) a)"

text \<open>\<^verbatim>\<open>sorted(s)\<close>: the comparisons are those of \<^verbatim>\<open><\<close> and may raise.\<close>

fun py_insort :: "json \<Rightarrow> json list \<Rightarrow> pyerr + json list" where
  "py_insort x [] = Inr [x]"
| "py_insort x (y # ys) =
     bnd (py_lt x y) (\<lambda>b. if b then Inr (x # y # ys)
                            else bnd (py_insort x ys) (\<lambda>r. Inr (y # r)))"

fun py_sorted :: "json list \<Rightarrow> pyerr + json list" where
  "py_sorted [] = Inr []"
| "py_sorted (x # xs) = bnd (py_sorted xs) (py_insort x)"

text \<open>A dict with computed keys: a new key is appended, an equal key keeps its place.\<close>

fun dict_get :: "(json \<times> 'a) list \<Rightarrow> json \<Rightarrow> 'a option" where
  "dict_get [] k = None"
| "dict_get (kv # d) k = (if py_eq (fst kv) k then Some (snd kv) else dict_get d k)"

fun dict_put :: "(json \<times> 'a) list \<Rightarrow> json \<Rightarrow> 'a \<Rightarrow> (json \<times> 'a) list" where
  "dict_put [] k v = [(k, v)]"
| "dict_put (kv # d) k v =
     (if py_eq (fst kv) k then (fst kv, v) # d else kv # dict_put d k v)"

text \<open>
  \<^verbatim>\<open>needle in v\<close> for a string needle: substring of a string, element of a list, key
  of a dict; TypeError on \<^verbatim>\<open>None\<close> and numbers.
\<close>

fun is_substring :: "string \<Rightarrow> string \<Rightarrow> bool" where
  "is_substring n [] = (n = [])"
| "is_substring n (c # cs) = (take (length n) (c # cs) = n \<or> is_substring n cs)"

fun py_contains :: "string \<Rightarrow> json \<Rightarrow> pyerr + bool" where
  "py_contains n (JStr s) = Inr (is_substring n s)"
| "py_contains n (JList xs) = Inr (py_mem (JStr n) xs)"
| "py_contains n (JObj kvs) = Inr (n \<in> set (map fst kvs))"
| "py_contains n _ = Inl TypeError"

section \<open>Section results\<close>

text \<open>
  Every entry of \<^verbatim>\<open>changes\<close> is a formatted message. A constructor stands for one
  message template of the source, its arguments for the values the template prints.
\<close>

datatype change =
    Kernel_changed json json
  | Disk_critical json
  | Disk_increased json json
  | Cpu_temp_high json
  | Service_stopped json
  | Service_started json
  | Service_failed json
  | Container_missing json
  | Container_state json json json
  | Container_new json
  | Iface_missing json
  | Iface_state json json json
  | Iface_ip json "json list" "json list"
  | Iface_mac json json json
  | Default_route_changed
  | Usb_missing json
  | Usb_removed json
  | Usb_added json
  | Rg_service_inactive
  | Rg_gateway_changed json json
  | Rg_dsl_missing
  | Rg_lte_missing
  | Fleet_unreachable string json
  | Fleet_reachable string json
  | Nm_deactivated json
  | Nm_activated json
  | Wg_inactive
  | Wg_peers_changed json json
  | Hw_under_voltage
  | Hw_throttled
  | Hw_soft_temp
  | Crit_not_active string json
  | Crit_restarted string json
  | Checksum_changed string
  | Swap_high json
  | Cron_removed json
  | Cron_added json
  | Boot_incomplete json
  | Boot_long int int

record ComparisonResult =
  section_name :: string
  problems :: int
  warnings :: int
  changes :: "change list"

text \<open>
  The locals \<^verbatim>\<open>problems\<close>, \<^verbatim>\<open>warnings\<close> and \<^verbatim>\<open>changes\<close> of a comparator, and its
  three ways to record a message: with \<^verbatim>\<open>problems += 1\<close>, with
  \<^verbatim>\<open>warnings += 1\<close>, or alone.
\<close>

type_synonym tally = "int \<times> int \<times> change list"

definition problem :: "change \<Rightarrow> tally \<Rightarrow> tally" where
  "problem m t = (case t of (p, w, c) \<Rightarrow> (p + 1, w, c @ [m]))"

definition warning :: "change \<Rightarrow> tally \<Rightarrow> tally" where
  "warning m t = (case t of (p, w, c) \<Rightarrow> (p, w + 1, c @ [m]))"

definition info :: "change \<Rightarrow> tally \<Rightarrow> tally" where
  "info m t = (case t of (p, w, c) \<Rightarrow> (p, w, c @ [m]))"

definition result :: "string \<Rightarrow> tally \<Rightarrow> ComparisonResult" where
  "result name t =
     (case t of (p, w, c) \<Rightarrow>
        \<lparr>section_name = name, problems = p, warnings = w, changes = c\<rparr>)"

text \<open>
  The block \<^verbatim>\<open>if s: for x in sorted(s): changes.append(f(x))\<close>, closed by
  \<^verbatim>\<open>problems += len(s)\<close>, by \<^verbatim>\<open>warnings += len(s)\<close>, or by nothing.
\<close>

definition problems_for :: "(json \<Rightarrow> change) \<Rightarrow> json list \<Rightarrow> tally \<Rightarrow> pyerr + tally" where
  "problems_for f s t =
     (case t of (p, w, c) \<Rightarrow>
        if s = [] then Inr t
        else bnd (py_sorted s) (\<lambda>ss. Inr (p + int (length s), w, c @ map f ss)))"

definition warnings_for :: "(json \<Rightarrow> change) \<Rightarrow> json list \<Rightarrow> tally \<Rightarrow> pyerr + tally" where
  "warnings_for f s t =
     (case t of (p, w, c) \<Rightarrow>
        if s = [] then Inr t
        else bnd (py_sorted s) (\<lambda>ss. Inr (p, w + int (length s), c @ map f ss)))"

definition infos_for :: "(json \<Rightarrow> change) \<Rightarrow> json list \<Rightarrow> tally \<Rightarrow> pyerr + tally" where
  "infos_for f s t =
     (case t of (p, w, c) \<Rightarrow>
        if s = [] then Inr t
        else bnd (py_sorted s) (\<lambda>ss. Inr (p, w, c @ map f ss)))"

text \<open>
  \<^verbatim>\<open>a.get(k) and not b.get(k)\<close> and \<^verbatim>\<open>not a.get(k) and not b.get(k)\<close>: the right
  operand is evaluated only when the left one does not decide.
\<close>

definition lost :: "json \<Rightarrow> json \<Rightarrow> string \<Rightarrow> pyerr + bool" where
  "lost a b k =
     bnd (py_get a k JNull) (\<lambda>x.
       if py_truthy x then bnd (py_get b k JNull) (\<lambda>y. Inr (\<not> py_truthy y))
       else Inr False)"

definition neither :: "json \<Rightarrow> json \<Rightarrow> string \<Rightarrow> pyerr + bool" where
  "neither a b k =
     bnd (py_get a k JNull) (\<lambda>x.
       if py_truthy x then Inr False
       else bnd (py_get b k JNull) (\<lambda>y. Inr (\<not> py_truthy y)))"

section \<open>The comparators\<close>

text \<open>
  Each comparator returns its \<^verbatim>\<open>ComparisonResult\<close>, or the exception it raises. The
  \<^verbatim>\<open>print\<close> calls and the \<^verbatim>\<open>verbose\<close> flag, which only selects what is printed, are
  left out.
\<close>

subsection \<open>System metrics\<close>

text \<open>The \<^verbatim>\<open>if\<close>/\<^verbatim>\<open>elif\<close> on the disk usage.\<close>

definition check_disk :: "json \<Rightarrow> json \<Rightarrow> tally \<Rightarrow> pyerr + tally" where
  "check_disk pre_disk post_disk t =
     bnd (py_gt post_disk (JInt 90)) (\<lambda>critical.
       if critical then Inr (problem (Disk_critical post_disk) t)
       else bnd (py_add pre_disk 10) (\<lambda>limit.
            bnd (py_gt post_disk limit) (\<lambda>increased.
              if increased then Inr (warning (Disk_increased pre_disk post_disk) t)
              else Inr t)))"

text \<open>The temperature: \<^verbatim>\<open>system.cpu_temp\<close>, or \<^verbatim>\<open>custom.cpu_temp_celsius\<close> when that is 0.\<close>

definition cpu_temp :: "json \<Rightarrow> json \<Rightarrow> pyerr + json" where
  "cpu_temp post_sys post =
     bnd (py_get post_sys ''cpu_temp'' (JInt 0)) (\<lambda>post_temp.
       if py_eq post_temp (JInt 0)
       then bnd (py_get post ''custom'' (JObj [])) (\<lambda>custom.
              py_get custom ''cpu_temp_celsius'' (JInt 0))
       else Inr post_temp)"

definition compare_system :: "json \<Rightarrow> json \<Rightarrow> pyerr + ComparisonResult" where
  "compare_system pre post =
     bnd (py_get pre ''system'' (JObj [])) (\<lambda>pre_sys.
     bnd (py_get post ''system'' (JObj [])) (\<lambda>post_sys.
     bnd (py_get pre_sys ''kernel'' JNull) (\<lambda>pre_kernel.
     bnd (py_get post_sys ''kernel'' JNull) (\<lambda>post_kernel.
     bnd (Inr (if py_eq pre_kernel post_kernel then (0, 0, [])
               else info (Kernel_changed pre_kernel post_kernel) (0, 0, []))) (\<lambda>t1.
     bnd (py_get pre_sys ''disk_usage_percent'' (JInt 0)) (\<lambda>pre_disk.
     bnd (py_get post_sys ''disk_usage_percent'' (JInt 0)) (\<lambda>post_disk.
     bnd (check_disk pre_disk post_disk t1) (\<lambda>t2.
     bnd (cpu_temp post_sys post) (\<lambda>post_temp.
     bnd (py_gt post_temp (JInt 80)) (\<lambda>hot.
     Inr (result ''system''
            (if hot then warning (Cpu_temp_high post_temp) t2 else t2))))))))))))"

subsection \<open>Services\<close>

text \<open>The marker that \<^verbatim>\<open>systemctl\<close> prints before a failed unit, U+25CF, in UTF-8.\<close>

definition bullet :: string where
  "bullet = [CHR 0xE2, CHR 0x97, CHR 0x8F]"

definition service_set :: "json \<Rightarrow> string \<Rightarrow> pyerr + json list" where
  "service_set doc k =
     bnd (py_get doc ''services'' (JObj [])) (\<lambda>services.
     bnd (py_get services k (JList [])) py_set)"

definition compare_services :: "json \<Rightarrow> json \<Rightarrow> pyerr + ComparisonResult" where
  "compare_services pre post =
     bnd (service_set pre ''running'') (\<lambda>pre_running.
     bnd (service_set post ''running'') (\<lambda>post_running.
     bnd (service_set pre ''failed'') (\<lambda>pre_failed0.
     bnd (service_set post ''failed'') (\<lambda>post_failed0.
     let pre_failed = set_discard pre_failed0 (JStr bullet);
         post_failed = set_discard post_failed0 (JStr bullet);
         stopped = set_diff pre_running post_running;
         started = set_diff post_running pre_running;
         new_failures = set_diff post_failed pre_failed
     in bnd (problems_for Service_stopped stopped (0, 0, [])) (\<lambda>t1.
        bnd (infos_for Service_started started t1) (\<lambda>t2.
        bnd (problems_for Service_failed new_failures t2) (\<lambda>t3.
        Inr (result ''services'' t3))))))))"

subsection \<open>Containers\<close>

text \<open>
  \<^verbatim>\<open>{c["name"]: c.get("state") for c in containers if c.get("name")}\<close>; the
  connection-manager comparator builds its dict of active connections the same way.
\<close>

fun names_dict :: "json list \<Rightarrow> (json \<times> json) list \<Rightarrow> pyerr + (json \<times> json) list" where
  "names_dict [] d = Inr d"
| "names_dict (c # cs) d =
     bnd (py_get c ''name'' JNull) (\<lambda>name.
       if py_truthy name then
         bnd (py_get c ''state'' JNull) (\<lambda>state.
           if py_hashable name then names_dict cs (dict_put d name state)
           else Inl TypeError)
       else names_dict cs d)"

fun docker_loop :: "(json \<times> json) list \<Rightarrow> (json \<times> json) list \<Rightarrow> tally \<Rightarrow> tally" where
  "docker_loop [] post_names t = t"
| "docker_loop (ns # rest) post_names t =
     docker_loop rest post_names
       (case dict_get post_names (fst ns) of
          None \<Rightarrow> problem (Container_missing (fst ns)) t
        | Some post_state \<Rightarrow>
            if py_eq (snd ns) (JStr ''running'') \<and> \<not> py_eq post_state (JStr ''running'')
            then problem (Container_state (fst ns) (snd ns) post_state) t
            else t)"

definition compare_docker :: "json \<Rightarrow> json \<Rightarrow> pyerr + ComparisonResult" where
  "compare_docker pre post =
     bnd (py_get pre ''docker'' (JObj [])) (\<lambda>pre_docker.
     bnd (py_get post ''docker'' (JObj [])) (\<lambda>post_docker.
     bnd (py_get pre_docker ''containers'' (JList [])) (\<lambda>pre_containers.
     bnd (py_get post_docker ''containers'' (JList [])) (\<lambda>post_containers.
     if \<not> py_truthy pre_containers \<and> \<not> py_truthy post_containers
     then Inr (result ''docker'' (0, 0, []))
     else
       bnd (bnd (py_iter pre_containers) (\<lambda>cs. names_dict cs [])) (\<lambda>pre_names.
       bnd (bnd (py_iter post_containers) (\<lambda>cs. names_dict cs [])) (\<lambda>post_names.
       bnd (infos_for Container_new
              (set_diff (map fst post_names) (map fst pre_names))
              (docker_loop pre_names post_names (0, 0, []))) (\<lambda>t.
       Inr (result ''docker'' t))))))))"

subsection \<open>Network interfaces\<close>

text \<open>\<^verbatim>\<open>{iface.get("ifname"): iface for iface in interfaces if iface.get("ifname")}\<close>\<close>

fun ifaces_dict :: "json list \<Rightarrow> (json \<times> json) list \<Rightarrow> pyerr + (json \<times> json) list" where
  "ifaces_dict [] d = Inr d"
| "ifaces_dict (iface # rest) d =
     bnd (py_get iface ''ifname'' JNull) (\<lambda>ifname.
       if py_truthy ifname then
         (if py_hashable ifname then ifaces_dict rest (dict_put d ifname iface)
          else Inl TypeError)
       else ifaces_dict rest d)"

text \<open>\<^verbatim>\<open>{addr.get("local") for addr in addr_info if addr.get("family") == "inet"}\<close>\<close>

fun inet_addrs :: "json list \<Rightarrow> json list \<Rightarrow> pyerr + json list" where
  "inet_addrs [] s = Inr s"
| "inet_addrs (addr # rest) s =
     bnd (py_get addr ''family'' JNull) (\<lambda>family.
       if py_eq family (JStr ''inet'') then
         bnd (py_get addr ''local'' JNull) (\<lambda>local.
           if py_hashable local then inet_addrs rest (set_add s local)
           else Inl TypeError)
       else inet_addrs rest s)"

definition iface_ips :: "json \<Rightarrow> pyerr + json list" where
  "iface_ips iface_data =
     bnd (py_get iface_data ''addr_info'' (JList [])) (\<lambda>addr_info.
     bnd (py_iter addr_info) (\<lambda>addrs. inet_addrs addrs []))"

fun iface_loop :: "(json \<times> json) list \<Rightarrow> (json \<times> json) list \<Rightarrow> tally \<Rightarrow> pyerr + tally" where
  "iface_loop [] post_ifaces t = Inr t"
| "iface_loop (entry # rest) post_ifaces t =
     (case dict_get post_ifaces (fst entry) of
        None \<Rightarrow> iface_loop rest post_ifaces (problem (Iface_missing (fst entry)) t)
      | Some post_data \<Rightarrow>
          bnd (py_get (snd entry) ''operstate'' (JStr ''UNKNOWN'')) (\<lambda>pre_state.
          bnd (py_get post_data ''operstate'' (JStr ''UNKNOWN'')) (\<lambda>post_state.
          bnd (Inr (if py_eq pre_state post_state then t
                    else warning (Iface_state (fst entry) pre_state post_state) t)) (\<lambda>t1.
          bnd (iface_ips (snd entry)) (\<lambda>pre_ips.
          bnd (iface_ips post_data) (\<lambda>post_ips.
          bnd (Inr (if set_eq pre_ips post_ips then t1
                    else warning (Iface_ip (fst entry) pre_ips post_ips) t1)) (\<lambda>t2.
          bnd (py_get (snd entry) ''address'' (JStr '''')) (\<lambda>pre_mac.
          bnd (py_get post_data ''address'' (JStr '''')) (\<lambda>post_mac.
          iface_loop rest post_ifaces
            (if py_eq pre_mac post_mac then t2
             else problem (Iface_mac (fst entry) pre_mac post_mac) t2))))))))))"

definition network_field :: "json \<Rightarrow> string \<Rightarrow> json \<Rightarrow> pyerr + json" where
  "network_field doc k dflt =
     bnd (py_get doc ''network'' (JObj [])) (\<lambda>network. py_get network k dflt)"

definition compare_network_interfaces :: "json \<Rightarrow> json \<Rightarrow> pyerr + ComparisonResult" where
  "compare_network_interfaces pre post =
     bnd (network_field pre ''interfaces'' (JList [])) (\<lambda>pre_ifaces_list.
     bnd (network_field post ''interfaces'' (JList [])) (\<lambda>post_ifaces_list.
     bnd (bnd (py_iter pre_ifaces_list) (\<lambda>l. ifaces_dict l [])) (\<lambda>pre_ifaces.
     bnd (bnd (py_iter post_ifaces_list) (\<lambda>l. ifaces_dict l [])) (\<lambda>post_ifaces.
     bnd (iface_loop pre_ifaces post_ifaces (0, 0, [])) (\<lambda>t1.
     bnd (network_field pre ''default_gateway'' (JStr ''none'')) (\<lambda>pre_gateway.
     bnd (network_field post ''default_gateway'' (JStr ''none'')) (\<lambda>post_gateway.
     Inr (result ''network''
            (if py_eq pre_gateway post_gateway then t1
             else warning Default_route_changed t1)))))))))"

subsection \<open>USB devices\<close>

text \<open>\<^verbatim>\<open>[d for d in removed if "RTL8153" in d or "RTL8156" in d]\<close>\<close>

fun critical_usb :: "json list \<Rightarrow> pyerr + json list" where
  "critical_usb [] = Inr []"
| "critical_usb (d # ds) =
     bnd (py_contains ''RTL8153'' d) (\<lambda>a.
     bnd (if a then Inr True else py_contains ''RTL8156'' d) (\<lambda>b.
     bnd (critical_usb ds) (\<lambda>r. Inr (if b then d # r else r))))"

definition compare_usb_devices :: "json \<Rightarrow> json \<Rightarrow> pyerr + ComparisonResult" where
  "compare_usb_devices pre post =
     bnd (bnd (py_get pre ''usb_devices'' (JList [])) py_set) (\<lambda>pre_devices.
     bnd (bnd (py_get post ''usb_devices'' (JList [])) py_set) (\<lambda>post_devices.
     let removed = set_diff pre_devices post_devices;
         added = set_diff post_devices pre_devices
     in bnd (critical_usb removed) (\<lambda>critical_missing.
        let t1 = (int (length critical_missing), 0, map Usb_missing critical_missing)
        in bnd (warnings_for Usb_removed (set_diff removed critical_missing) t1) (\<lambda>t2.
           bnd (infos_for Usb_added added t2) (\<lambda>t3.
           Inr (result ''usb_devices'' t3))))))"

subsection \<open>Route guardian\<close>

definition compare_route_guardian :: "json \<Rightarrow> json \<Rightarrow> pyerr + ComparisonResult" where
  "compare_route_guardian pre post =
     bnd (py_get pre ''route_guardian'' (JObj [])) (\<lambda>pre_rg.
     bnd (py_get post ''route_guardian'' (JObj [])) (\<lambda>post_rg.
     if \<not> py_truthy pre_rg \<and> \<not> py_truthy post_rg
     then Inr (result ''route_guardian'' (0, 0, []))
     else
       bnd (lost pre_rg post_rg ''service_active'') (\<lambda>inactive.
       bnd (Inr (if inactive then problem Rg_service_inactive (0, 0, [])
                 else (0, 0, []))) (\<lambda>t1.
       bnd (py_get pre_rg ''active_gateway'' (JStr ''unknown'')) (\<lambda>pre_gw.
       bnd (py_get post_rg ''active_gateway'' (JStr ''unknown'')) (\<lambda>post_gw.
       bnd (Inr (if py_eq pre_gw post_gw then t1
                 else warning (Rg_gateway_changed pre_gw post_gw) t1)) (\<lambda>t2.
       bnd (lost pre_rg post_rg ''dsl_route_present'') (\<lambda>no_dsl.
       bnd (Inr (if no_dsl then problem Rg_dsl_missing t2 else t2)) (\<lambda>t3.
       bnd (lost pre_rg post_rg ''lte_route_present'') (\<lambda>no_lte.
       Inr (result ''route_guardian''
              (if no_lte then warning Rg_lte_missing t3 else t3))))))))))))"

subsection \<open>Fleet reachability\<close>

definition devices :: "string list" where
  "devices = [''watchdog'', ''security'', ''dns_gateway'', ''gpio_bedroom'', ''gpio_bathroom'']"

fun fleet_loop :: "string list \<Rightarrow> json \<Rightarrow> json \<Rightarrow> tally \<Rightarrow> pyerr + tally" where
  "fleet_loop [] pre_fleet post_fleet t = Inr t"
| "fleet_loop (device # rest) pre_fleet post_fleet t =
     bnd (py_get pre_fleet device (JObj [])) (\<lambda>pre_data.
     bnd (py_get post_fleet device (JObj [])) (\<lambda>post_data.
     bnd (py_get pre_data ''reachable'' (JBool False)) (\<lambda>pre_reachable.
     bnd (py_get post_data ''reachable'' (JBool False)) (\<lambda>post_reachable.
     bnd (if py_truthy pre_reachable \<and> \<not> py_truthy post_reachable then
            bnd (py_get post_data ''ip'' (JStr ''unknown'')) (\<lambda>ip.
              Inr (warning (Fleet_unreachable device ip) t))
          else if \<not> py_truthy pre_reachable \<and> py_truthy post_reachable then
            bnd (py_get post_data ''ip'' (JStr ''unknown'')) (\<lambda>ip.
              Inr (info (Fleet_reachable device ip) t))
          else Inr t) (\<lambda>t1.
     fleet_loop rest pre_fleet post_fleet t1)))))"

definition compare_pi_zero_fleet :: "json \<Rightarrow> json \<Rightarrow> pyerr + ComparisonResult" where
  "compare_pi_zero_fleet pre post =
     bnd (py_get pre ''pi_zero_fleet'' (JObj [])) (\<lambda>pre_fleet.
     bnd (py_get post ''pi_zero_fleet'' (JObj [])) (\<lambda>post_fleet.
     if \<not> py_truthy pre_fleet \<and> \<not> py_truthy post_fleet
     then Inr (result ''pi_zero_fleet'' (0, 0, []))
     else bnd (fleet_loop devices pre_fleet post_fleet (0, 0, [])) (\<lambda>t.
          Inr (result ''pi_zero_fleet'' t))))"

subsection \<open>Connection manager\<close>

definition active_connections :: "json \<Rightarrow> pyerr + (json \<times> json) list" where
  "active_connections nm =
     bnd (py_get nm ''active_connections'' (JList [])) (\<lambda>conns.
     bnd (py_iter conns) (\<lambda>cs. names_dict cs []))"

definition compare_networkmanager :: "json \<Rightarrow> json \<Rightarrow> pyerr + ComparisonResult" where
  "compare_networkmanager pre post =
     bnd (py_get pre ''networkmanager'' (JObj [])) (\<lambda>pre_nm.
     bnd (py_get post ''networkmanager'' (JObj [])) (\<lambda>post_nm.
     bnd (active_connections pre_nm) (\<lambda>pre_active.
     bnd (active_connections post_nm) (\<lambda>post_active.
     bnd (warnings_for Nm_deactivated
            (set_diff (map fst pre_active) (map fst post_active)) (0, 0, [])) (\<lambda>t1.
     bnd (infos_for Nm_activated
            (set_diff (map fst post_active) (map fst pre_active)) t1) (\<lambda>t2.
     Inr (result ''networkmanager'' t2)))))))"

subsection \<open>VPN interface\<close>

definition compare_wireguard :: "json \<Rightarrow> json \<Rightarrow> pyerr + ComparisonResult" where
  "compare_wireguard pre post =
     bnd (py_get pre ''wireguard'' (JObj [])) (\<lambda>pre_wg.
     bnd (py_get post ''wireguard'' (JObj [])) (\<lambda>post_wg.
     bnd (neither pre_wg post_wg ''interface_active'') (\<lambda>inactive.
     if inactive then Inr (result ''wireguard'' (0, 0, []))
     else
       bnd (lost pre_wg post_wg ''interface_active'') (\<lambda>down.
       bnd (Inr (if down then problem Wg_inactive (0, 0, []) else (0, 0, []))) (\<lambda>t1.
       bnd (py_get pre_wg ''peers_count'' (JInt 0)) (\<lambda>pre_peers.
       bnd (py_get post_wg ''peers_count'' (JInt 0)) (\<lambda>post_peers.
       Inr (result ''wireguard''
              (if py_eq pre_peers post_peers then t1
               else warning (Wg_peers_changed pre_peers post_peers) t1)))))))))"

subsection \<open>Hardware throttling\<close>

definition flag_warning :: "json \<Rightarrow> string \<Rightarrow> change \<Rightarrow> tally \<Rightarrow> pyerr + tally" where
  "flag_warning d k m t =
     bnd (py_get d k JNull) (\<lambda>flag. Inr (if py_truthy flag then warning m t else t))"

definition compare_hardware_throttling :: "json \<Rightarrow> json \<Rightarrow> pyerr + ComparisonResult" where
  "compare_hardware_throttling pre post =
     bnd (py_get pre ''hardware'' (JObj [])) (\<lambda>pre_hw.
     bnd (py_get post ''hardware'' (JObj [])) (\<lambda>post_hw.
     bnd (neither pre_hw post_hw ''throttle_events'') (\<lambda>no_data.
     if no_data then Inr (result ''hardware_throttling'' (0, 0, []))
     else
       bnd (py_get post_hw ''throttle_events'' (JObj [])) (\<lambda>post_throttle.
       bnd (flag_warning post_throttle ''under_voltage'' Hw_under_voltage (0, 0, [])) (\<lambda>t1.
       bnd (flag_warning post_throttle ''currently_throttled'' Hw_throttled t1) (\<lambda>t2.
       bnd (flag_warning post_throttle ''soft_temp_limit'' Hw_soft_temp t2) (\<lambda>t3.
       Inr (result ''hardware_throttling'' t3))))))))"

subsection \<open>Critical services\<close>

text \<open>\<^verbatim>\<open>d.items()\<close>: only a dict has \<^verbatim>\<open>items\<close>.\<close>

fun py_items :: "json \<Rightarrow> pyerr + (string \<times> json) list" where
  "py_items (JObj kvs) = Inr kvs"
| "py_items _ = Inl AttributeError"

fun critical_loop :: "(string \<times> json) list \<Rightarrow> json \<Rightarrow> tally \<Rightarrow> pyerr + tally" where
  "critical_loop [] pre_crit t = Inr t"
| "critical_loop (entry # rest) pre_crit t =
     bnd (py_get (snd entry) ''active'' JNull) (\<lambda>active.
     bnd (Inr (if py_eq active (JStr ''active'') then t
               else problem (Crit_not_active (fst entry) active) t)) (\<lambda>t1.
     bnd (py_get pre_crit (fst entry) (JObj [])) (\<lambda>pre_data.
     bnd (py_get pre_data ''restarts'' (JInt 0)) (\<lambda>pre_restarts.
     bnd (py_get (snd entry) ''restarts'' (JInt 0)) (\<lambda>post_restarts.
     bnd (py_gt post_restarts pre_restarts) (\<lambda>more.
     bnd (if more then
            bnd (py_sub post_restarts pre_restarts) (\<lambda>n.
              Inr (warning (Crit_restarted (fst entry) n) t1))
          else Inr t1) (\<lambda>t2.
     critical_loop rest pre_crit t2)))))))"

definition compare_critical_services :: "json \<Rightarrow> json \<Rightarrow> pyerr + ComparisonResult" where
  "compare_critical_services pre post =
     bnd (py_get pre ''critical_services'' (JObj [])) (\<lambda>pre_crit.
     bnd (py_get post ''critical_services'' (JObj [])) (\<lambda>post_crit.
     if \<not> py_truthy pre_crit \<and> \<not> py_truthy post_crit
     then Inr (result ''critical_services'' (0, 0, []))
     else bnd (py_items post_crit) (\<lambda>items.
          bnd (critical_loop items pre_crit (0, 0, [])) (\<lambda>t.
          Inr (result ''critical_services'' t)))))"

subsection \<open>Config checksums\<close>

fun checksum_loop :: "(string \<times> json) list \<Rightarrow> json \<Rightarrow> tally \<Rightarrow> pyerr + tally" where
  "checksum_loop [] post_checksums t = Inr t"
| "checksum_loop (entry # rest) post_checksums t =
     bnd (py_get post_checksums (fst entry) (JStr ''missing'')) (\<lambda>post_hash.
     checksum_loop rest post_checksums
       (if py_eq (snd entry) post_hash then t
        else warning (Checksum_changed (fst entry)) t))"

definition compare_config_checksums :: "json \<Rightarrow> json \<Rightarrow> pyerr + ComparisonResult" where
  "compare_config_checksums pre post =
     bnd (py_get pre ''config_checksums'' (JObj [])) (\<lambda>pre_checksums.
     bnd (py_get post ''config_checksums'' (JObj [])) (\<lambda>post_checksums.
     bnd (py_items pre_checksums) (\<lambda>items.
     bnd (checksum_loop items post_checksums (0, 0, [])) (\<lambda>t.
     Inr (result ''config_checksums'' t)))))"

subsection \<open>Memory detail\<close>

text \<open>
  Only the post document is read. The branch \<^verbatim>\<open>elif post_swap_usage > 0\<close> prints and
  changes nothing; its comparison cannot raise once the first one has not.
\<close>

definition compare_memory_detail :: "json \<Rightarrow> json \<Rightarrow> pyerr + ComparisonResult" where
  "compare_memory_detail pre post =
     bnd (py_get post ''memory_detail'' (JObj [])) (\<lambda>post_mem.
     bnd (py_get post_mem ''swap_usage_percent'' (JInt 0)) (\<lambda>post_swap_usage.
     bnd (py_gt post_swap_usage (JInt 50)) (\<lambda>high.
     Inr (result ''memory_detail''
            (if high then warning (Swap_high post_swap_usage) (0, 0, [])
             else (0, 0, []))))))"

subsection \<open>Cron jobs\<close>

definition compare_cron_jobs :: "json \<Rightarrow> json \<Rightarrow> pyerr + ComparisonResult" where
  "compare_cron_jobs pre post =
     bnd (bnd (py_get pre ''cron_jobs'' (JList [])) py_set) (\<lambda>pre_cron.
     bnd (bnd (py_get post ''cron_jobs'' (JList [])) py_set) (\<lambda>post_cron.
     bnd (warnings_for Cron_removed (set_diff pre_cron post_cron) (0, 0, [])) (\<lambda>t1.
     bnd (infos_for Cron_added (set_diff post_cron pre_cron) t1) (\<lambda>t2.
     Inr (result ''cron_jobs'' t2)))))"

subsection \<open>Boot validation\<close>

text \<open>
  \<^verbatim>\<open>int(duration)\<close> stands in a \<^verbatim>\<open>try\<close> whose handler catches ValueError and nothing
  else.
\<close>

definition validate_boot_info :: "(string \<Rightarrow> int option) \<Rightarrow> json \<Rightarrow>
    pyerr + ComparisonResult" where
  "validate_boot_info int_of_str post =
     bnd (py_get post ''boot_info'' JNull) (\<lambda>boot_info.
     if boot_info = JNull then Inr (result ''boot_info'' (0, 0, []))
     else
       bnd (py_get boot_info ''available'' (JBool True)) (\<lambda>available.
       if \<not> py_truthy available then Inr (result ''boot_info'' (0, 0, []))
       else
         bnd (py_get boot_info ''phases_completed'' (JInt 0)) (\<lambda>phases.
         bnd (py_lt phases (JInt 13)) (\<lambda>incomplete.
         bnd (Inr (if incomplete then problem (Boot_incomplete phases) (0, 0, [])
                   else (0, 0, []))) (\<lambda>t1.
         bnd (py_get boot_info ''boot_duration_seconds'' (JStr ''unknown'')) (\<lambda>duration.
         if \<not> py_eq duration (JStr ''unknown'') then
           (case py_int int_of_str duration of
              Inr duration_int \<Rightarrow>
                Inr (result ''boot_info''
                       (if 300 < duration_int
                        then warning (Boot_long duration_int (duration_int div 60)) t1
                        else t1))
            | Inl ValueError \<Rightarrow> Inr (result ''boot_info'' t1)
            | Inl e \<Rightarrow> Inl e)
         else Inr (result ''boot_info'' t1)))))))"

section \<open>Aggregation and exit status\<close>

text \<open>The three lists that \<^verbatim>\<open>print_summary\<close> builds from the results.\<close>

definition critical :: "ComparisonResult list \<Rightarrow> ComparisonResult list" where
  "critical results = filter (\<lambda>r. 0 < problems r) results"

definition warnings_bucket :: "ComparisonResult list \<Rightarrow> ComparisonResult list" where
  "warnings_bucket results = filter (\<lambda>r. 0 < warnings r \<and> problems r = 0) results"

definition info_bucket :: "ComparisonResult list \<Rightarrow> ComparisonResult list" where
  "info_bucket results =
     filter (\<lambda>r. 0 < length (changes r) \<and> problems r = 0 \<and> warnings r = 0) results"

definition total_problems :: "ComparisonResult list \<Rightarrow> int" where
  "total_problems results = sum_list (map problems results)"

definition total_warnings :: "ComparisonResult list \<Rightarrow> int" where
  "total_warnings results = sum_list (map warnings results)"

text \<open>
  \<^verbatim>\<open>print_summary\<close> parses the two timestamps when both are truthy, inside a
  \<^verbatim>\<open>try\<close> that catches ValueError: \<^verbatim>\<open>strptime\<close> raises TypeError on a value that
  is no string, ValueError on a string of another format. Which strings have the format
  \<^verbatim>\<open>%Y%m%d-%H%M%S\<close> is the parameter \<open>strptime_ok\<close>. Nothing else in the two
  renderings raises.
\<close>

definition print_summary :: "(string \<Rightarrow> bool) \<Rightarrow> json \<Rightarrow> json \<Rightarrow> pyerr + unit" where
  "print_summary strptime_ok pre post =
     bnd (py_get pre ''timestamp'' (JStr '''')) (\<lambda>pre_ts.
     bnd (py_get post ''timestamp'' (JStr '''')) (\<lambda>post_ts.
     if py_truthy pre_ts \<and> py_truthy post_ts then
       (case pre_ts of
          JStr s \<Rightarrow>
            if strptime_ok s
            then (case post_ts of JStr t \<Rightarrow> Inr () | _ \<Rightarrow> Inl TypeError)
            else Inr ()
        | _ \<Rightarrow> Inl TypeError)
     else Inr ()))"

text \<open>The comparators in the order \<^verbatim>\<open>main\<close> runs them.\<close>

definition comparators :: "(json \<Rightarrow> json \<Rightarrow> pyerr + ComparisonResult) list" where
  "comparators =
     [compare_system, compare_services, compare_docker, compare_network_interfaces,
      compare_usb_devices, compare_route_guardian, compare_pi_zero_fleet,
      compare_networkmanager, compare_wireguard, compare_hardware_throttling,
      compare_critical_services, compare_config_checksums, compare_memory_detail,
      compare_cron_jobs]"

fun run_each :: "(json \<Rightarrow> json \<Rightarrow> pyerr + ComparisonResult) list \<Rightarrow> json \<Rightarrow> json \<Rightarrow>
    pyerr + ComparisonResult list" where
  "run_each [] pre post = Inr []"
| "run_each (c # cs) pre post =
     bnd (c pre post) (\<lambda>r. bnd (run_each cs pre post) (\<lambda>rs. Inr (r # rs)))"

definition run_comparisons :: "(string \<Rightarrow> int option) \<Rightarrow> json \<Rightarrow> json \<Rightarrow>
    pyerr + ComparisonResult list" where
  "run_comparisons int_of_str pre post =
     bnd (run_each comparators pre post) (\<lambda>results.
     bnd (py_get post ''type'' JNull) (\<lambda>type.
     if py_eq type (JStr ''post-reboot'')
     then bnd (validate_boot_info int_of_str post) (\<lambda>r. Inr (results @ [r]))
     else Inr results))"

text \<open>
  \<^verbatim>\<open>main\<close>, from the parsed arguments on. The collaborators are parameters:
  \<open>latest\<close> is what \<^verbatim>\<open>find_latest_snapshots\<close> returns, \<open>load_snapshot\<close> maps a path
  to the parsed document or to \<^verbatim>\<open>None\<close>; \<open>strptime_ok\<close> and \<open>int_of_str\<close> are the two
  tables of Python named above. The value is the exit status together with
  the results computed on the way, or the exception that leaves \<^verbatim>\<open>main\<close>.
\<close>

record cli_args =
  pre_snapshot :: "string option"
  post_snapshot :: "string option"
  auto_latest :: bool
  json_out :: bool

definition snapshot_files :: "cli_args \<Rightarrow> string option \<times> string option \<Rightarrow> (string \<times> string) option" where
  "snapshot_files args latest =
     (if auto_latest args \<or> (pre_snapshot args = None \<and> post_snapshot args = None) then
        (case latest of (Some pre_file, Some post_file) \<Rightarrow> Some (pre_file, post_file)
         | _ \<Rightarrow> None)
      else
        (case (pre_snapshot args, post_snapshot args) of
           (Some pre_file, Some post_file) \<Rightarrow> Some (pre_file, post_file)
         | _ \<Rightarrow> None))"

text \<open>\<^verbatim>\<open>not pre\<close> for what \<^verbatim>\<open>load_snapshot\<close> returned.\<close>

definition not_loaded :: "json option \<Rightarrow> bool" where
  "not_loaded d = (case d of None \<Rightarrow> True | Some v \<Rightarrow> \<not> py_truthy v)"

definition main :: "cli_args \<Rightarrow> string option \<times> string option \<Rightarrow> (string \<Rightarrow> json option) \<Rightarrow>
    (string \<Rightarrow> bool) \<Rightarrow> (string \<Rightarrow> int option) \<Rightarrow>
    pyerr + int \<times> ComparisonResult list" where
  "main args latest load_snapshot strptime_ok int_of_str =
     (case snapshot_files args latest of
        None \<Rightarrow> Inr (2, [])
      | Some files \<Rightarrow>
          let pre = load_snapshot (fst files); post = load_snapshot (snd files)
          in if not_loaded pre \<or> not_loaded post then Inr (1, [])
             else
               bnd (run_comparisons int_of_str (the pre) (the post)) (\<lambda>results.
               bnd (if json_out args then Inr ()
                    else print_summary strptime_ok (the pre) (the post)) (\<lambda>_.
               Inr (if total_problems results = 0 then 0 else 1, results))))"

text \<open>
  \<^verbatim>\<open>sys.exit(main())\<close>: the status \<^verbatim>\<open>main\<close> returns, and 1 when an exception
  leaves it.
\<close>

definition exit_status :: "pyerr + int \<times> ComparisonResult list \<Rightarrow> int" where
  "exit_status outcome = (case outcome of Inl e \<Rightarrow> 1 | Inr r \<Rightarrow> fst r)"

section \<open>Predicates used in the statements\<close>

text \<open>A boot duration that \<^verbatim>\<open>int\<close> converts or rejects with ValueError.\<close>

fun number_or_string :: "json \<Rightarrow> bool" where
  "number_or_string (JInt i) = True"
| "number_or_string (JBool b) = True"
| "number_or_string (JStr s) = True"
| "number_or_string _ = False"

text \<open>The two messages of the disk check.\<close>

definition is_disk_finding :: "change \<Rightarrow> bool" where
  "is_disk_finding c =
     (case c of Disk_critical x \<Rightarrow> True | Disk_increased x y \<Rightarrow> True | _ \<Rightarrow> False)"

text \<open>
  The invariant of a result: the counts are not negative, and \<^verbatim>\<open>changes\<close> has at
  least one entry for each counted problem and warning. \<open>tally_ok\<close> is the same for
  the three locals while a comparator runs.
\<close>

definition tally_ok :: "tally \<Rightarrow> bool" where
  "tally_ok t = (case t of (p, w, c) \<Rightarrow> 0 \<le> p \<and> 0 \<le> w \<and> p + w \<le> int (length c))"

definition result_ok :: "ComparisonResult \<Rightarrow> bool" where
  "result_ok r = (0 \<le> problems r \<and> 0 \<le> warnings r \<and>
                  problems r + warnings r \<le> int (length (changes r)))"

text \<open>
  The messages that judge the post document alone against a fixed threshold or state.
\<close>

definition absolute_finding :: "change \<Rightarrow> bool" where
  "absolute_finding c =
     (case c of
        Disk_critical x \<Rightarrow> True
      | Cpu_temp_high x \<Rightarrow> True
      | Hw_under_voltage \<Rightarrow> True
      | Hw_throttled \<Rightarrow> True
      | Hw_soft_temp \<Rightarrow> True
      | Crit_not_active s x \<Rightarrow> True
      | Swap_high x \<Rightarrow> True
      | Boot_incomplete x \<Rightarrow> True
      | Boot_long n m \<Rightarrow> True
      | _ \<Rightarrow> False)"

text \<open>A tally whose messages are all of that kind, each counted once.\<close>

definition only_absolute :: "tally \<Rightarrow> bool" where
  "only_absolute t =
     (case t of (p, w, c) \<Rightarrow> list_all absolute_finding c \<and> p + w = int (length c))"

text \<open>
  The top-level keys that the comparators read, and two documents that are dicts with the
  same value, or none, under each of them.
\<close>

definition section_keys :: "string list" where
  "section_keys =
     [''system'', ''custom'', ''services'', ''docker'', ''network'', ''usb_devices'',
      ''route_guardian'', ''pi_zero_fleet'', ''networkmanager'', ''wireguard'', ''hardware'',
      ''critical_services'', ''config_checksums'', ''memory_detail'', ''cron_jobs'',
      ''boot_info'']"

definition same_sections :: "json \<Rightarrow> json \<Rightarrow> bool" where
  "same_sections pre post =
     (case pre of
        JObj a \<Rightarrow> (case post of
                     JObj b \<Rightarrow> list_all (\<lambda>k. map_of a k = map_of b k) section_keys
                   | _ \<Rightarrow> False)
      | _ \<Rightarrow> False)"

text \<open>
  Keys of a set or dict are equal (\<^verbatim>\<open>==\<close>) exactly when they are the same once a
  bool is read as its number; a dict built by \<open>dict_put\<close> keeps its keys hashable and
  pairwise unequal.
\<close>

fun hash_key :: "json \<Rightarrow> json" where
  "hash_key (JBool b) = JInt (if b then 1 else 0)"
| "hash_key v = v"

definition dict_inv :: "(json \<times> 'a) list \<Rightarrow> bool" where
  "dict_inv d = ((\<forall>kv \<in> set d. py_hashable (fst kv)) \<and> distinct (map (\<lambda>kv. hash_key (fst kv)) d))"

text \<open>
  The shape of a document that the comparators read without raising. Every field is
  optional: \<open>field d k P\<close> says that \<open>d\<close> is a dict whose value under \<open>k\<close>, when
  there is one, satisfies \<open>P\<close>. \<open>list_of P\<close> is a list of values with \<open>P\<close>,
  \<open>dict_of P\<close> a dict whose values have \<open>P\<close>.
\<close>

fun is_int :: "json \<Rightarrow> bool" where
  "is_int (JInt i) = True"
| "is_int _ = False"

fun is_str :: "json \<Rightarrow> bool" where
  "is_str (JStr s) = True"
| "is_str _ = False"

fun is_dict :: "json \<Rightarrow> bool" where
  "is_dict (JObj kvs) = True"
| "is_dict _ = False"

fun list_of :: "(json \<Rightarrow> bool) \<Rightarrow> json \<Rightarrow> bool" where
  "list_of P (JList xs) = list_all P xs"
| "list_of P _ = False"

fun dict_of :: "(json \<Rightarrow> bool) \<Rightarrow> json \<Rightarrow> bool" where
  "dict_of P (JObj kvs) = list_all (\<lambda>kv. P (snd kv)) kvs"
| "dict_of P _ = False"

fun field :: "json \<Rightarrow> string \<Rightarrow> (json \<Rightarrow> bool) \<Rightarrow> bool" where
  "field (JObj kvs) k P = (case map_of kvs k of None \<Rightarrow> True | Some v \<Rightarrow> P v)"
| "field _ k P = False"

text \<open>
  A container or connection is a dict whose name is a string; an interface is a dict
  whose name is a string and whose addresses are dicts with a hashable \<^verbatim>\<open>local\<close>; the
  boot section is \<^verbatim>\<open>null\<close> or a dict whose phases are a number and whose duration is
  a number or a string.
\<close>

definition named :: "json \<Rightarrow> bool" where
  "named c = field c ''name'' is_str"

definition wt_iface :: "json \<Rightarrow> bool" where
  "wt_iface i = (field i ''ifname'' is_str \<and>
                 field i ''addr_info'' (list_of (\<lambda>a. field a ''local'' py_hashable)))"

definition wt_boot :: "json \<Rightarrow> bool" where
  "wt_boot b = (b = JNull \<or>
                (field b ''phases_completed'' is_int \<and>
                 field b ''boot_duration_seconds'' number_or_string))"

text \<open>
  The document: a dict in which each section that is present has the fields its
  comparator computes with, of the type it computes with (numbers where it compares
  with \<^verbatim>\<open>>\<close>, lists of strings where it builds and sorts a set, dicts where it calls
  \<^verbatim>\<open>get\<close> or \<^verbatim>\<open>items\<close>). Fields that are only compared with \<^verbatim>\<open>==\<close>, tested
  for truth or printed are not constrained.
\<close>

definition wt_doc :: "json \<Rightarrow> bool" where
  "wt_doc d =
    (field d ''system'' (\<lambda>s. field s ''disk_usage_percent'' is_int \<and>
                               field s ''cpu_temp'' is_int) \<and>
     field d ''custom'' (\<lambda>c. field c ''cpu_temp_celsius'' is_int) \<and>
     field d ''services'' (\<lambda>s. field s ''running'' (list_of is_str) \<and>
                                 field s ''failed'' (list_of is_str)) \<and>
     field d ''docker'' (\<lambda>k. field k ''containers'' (list_of named)) \<and>
     field d ''network'' (\<lambda>n. field n ''interfaces'' (list_of wt_iface)) \<and>
     field d ''usb_devices'' (list_of is_str) \<and>
     field d ''route_guardian'' is_dict \<and>
     field d ''pi_zero_fleet'' (\<lambda>f. list_all (\<lambda>device. field f device is_dict) devices) \<and>
     field d ''networkmanager'' (\<lambda>n. field n ''active_connections'' (list_of named)) \<and>
     field d ''wireguard'' is_dict \<and>
     field d ''hardware'' (\<lambda>h. field h ''throttle_events'' is_dict) \<and>
     field d ''critical_services'' (dict_of (\<lambda>s. field s ''restarts'' is_int)) \<and>
     field d ''config_checksums'' is_dict \<and>
     field d ''memory_detail'' (\<lambda>m. field m ''swap_usage_percent'' is_int) \<and>
     field d ''cron_jobs'' (list_of is_str) \<and>
     field d ''boot_info'' wt_boot)"

text \<open>
  A dict without the key \<open>k\<close>; the top-level keys that each comparator reads, first
  from the pre document, then from the post document; a result without findings.
\<close>

definition absent :: "json \<Rightarrow> string \<Rightarrow> bool" where
  "absent d k = (case d of JObj kvs \<Rightarrow> map_of kvs k = None | _ \<Rightarrow> False)"

definition sections_read ::
    "((json \<Rightarrow> json \<Rightarrow> pyerr + ComparisonResult) \<times> string list \<times> string list) list" where
  "sections_read =
     [(compare_system, [''system''], [''system'', ''custom'']),
      (compare_services, [''services''], [''services'']),
      (compare_docker, [''docker''], [''docker'']),
      (compare_network_interfaces, [''network''], [''network'']),
      (compare_usb_devices, [''usb_devices''], [''usb_devices'']),
      (compare_route_guardian, [''route_guardian''], [''route_guardian'']),
      (compare_pi_zero_fleet, [''pi_zero_fleet''], [''pi_zero_fleet'']),
      (compare_networkmanager, [''networkmanager''], [''networkmanager'']),
      (compare_wireguard, [''wireguard''], [''wireguard'']),
      (compare_hardware_throttling, [''hardware''], [''hardware'']),
      (compare_critical_services, [''critical_services''], [''critical_services'']),
      (compare_config_checksums, [''config_checksums''], [''config_checksums'']),
      (compare_memory_detail, [], [''memory_detail'']),
      (compare_cron_jobs, [''cron_jobs''], [''cron_jobs''])]"

definition no_findings :: "ComparisonResult \<Rightarrow> bool" where
  "no_findings r = (problems r = 0 \<and> warnings r = 0 \<and> changes r = [])"

section \<open>Basic facts\<close>

lemma bnd_Inr [simp]: "bnd (Inr x) f = f x"
  by (simp add: bnd_def)

lemma bnd_Inl [simp]: "bnd (Inl e) f = Inl e"
  by (simp add: bnd_def)

lemma bnd_eq_Inr: "bnd m f = Inr r \<longleftrightarrow> (\<exists>x. m = Inr x \<and> f x = Inr r)"
  by (cases m) simp_all

lemma tally_simps [simp]:
  "problem m (p, w, c) = (p + 1, w, c @ [m])"
  "warning m (p, w, c) = (p, w + 1, c @ [m])"
  "info m (p, w, c) = (p, w, c @ [m])"
  "result name (p, w, c) = \<lparr>section_name = name, problems = p, warnings = w, changes = c\<rparr>"
  by (simp_all add: problem_def warning_def info_def result_def)

lemma py_eq_JStr [simp]: "py_eq v (JStr s) \<longleftrightarrow> v = JStr s"
  by (cases v) auto

section \<open>System metrics: the disk thresholds\<close>

lemma check_disk_cases:
  assumes "check_disk a b t = Inr t'"
  shows "(py_gt b (JInt 90) = Inr True \<and> t' = problem (Disk_critical b) t) \<or>
         (py_gt b (JInt 90) = Inr False \<and>
          (\<exists>lim. py_add a 10 = Inr lim \<and>
             ((py_gt b lim = Inr True \<and> t' = warning (Disk_increased a b) t) \<or>
              (py_gt b lim = Inr False \<and> t' = t))))"
  using assms by (auto simp: check_disk_def bnd_eq_Inr split: if_splits)

lemma compare_system_Inr:
  assumes "compare_system pre post = Inr r"
  obtains pre_sys post_sys pre_kernel post_kernel pre_disk post_disk t2 post_temp hot where
    "py_get pre ''system'' (JObj []) = Inr pre_sys"
    "py_get post ''system'' (JObj []) = Inr post_sys"
    "py_get pre_sys ''kernel'' JNull = Inr pre_kernel"
    "py_get post_sys ''kernel'' JNull = Inr post_kernel"
    "py_get pre_sys ''disk_usage_percent'' (JInt 0) = Inr pre_disk"
    "py_get post_sys ''disk_usage_percent'' (JInt 0) = Inr post_disk"
    "check_disk pre_disk post_disk
       (0, 0, if py_eq pre_kernel post_kernel then []
              else [Kernel_changed pre_kernel post_kernel]) = Inr t2"
    "cpu_temp post_sys post = Inr post_temp"
    "py_gt post_temp (JInt 80) = Inr hot"
    "r = result ''system'' (if hot then warning (Cpu_temp_high post_temp) t2 else t2)"
proof -
  from assms obtain pre_sys post_sys pre_kernel post_kernel pre_disk post_disk t2 post_temp hot
    where "py_get pre ''system'' (JObj []) = Inr pre_sys"
    "py_get post ''system'' (JObj []) = Inr post_sys"
    "py_get pre_sys ''kernel'' JNull = Inr pre_kernel"
    "py_get post_sys ''kernel'' JNull = Inr post_kernel"
    "py_get pre_sys ''disk_usage_percent'' (JInt 0) = Inr pre_disk"
    "py_get post_sys ''disk_usage_percent'' (JInt 0) = Inr post_disk"
    "check_disk pre_disk post_disk
       (if py_eq pre_kernel post_kernel then (0, 0, [])
        else info (Kernel_changed pre_kernel post_kernel) (0, 0, [])) = Inr t2"
    "cpu_temp post_sys post = Inr post_temp"
    "py_gt post_temp (JInt 80) = Inr hot"
    "r = result ''system'' (if hot then warning (Cpu_temp_high post_temp) t2 else t2)"
    unfolding compare_system_def bnd_eq_Inr by blast
  then show thesis
    by (intro that[of pre_sys post_sys pre_kernel post_kernel pre_disk post_disk t2 post_temp hot])
       (simp_all split: if_splits)
qed

text \<open>
  C3. When both documents give the disk usage as numbers \<open>a\<close> (pre) and \<open>b\<close> (post),
  the system comparator raises one problem exactly when \<open>b > 90\<close>, and, apart from
  the temperature warning, one warning exactly when \<open>b \<le> 90\<close> and \<open>b > a + 10\<close>:
  90 raises no problem and 91 one, 50 to 60 raises no warning and 50 to 61 one.
\<close>

theorem system_disk_thresholds:
  assumes "py_get pre ''system'' (JObj []) = Inr pre_sys"
    and "py_get post ''system'' (JObj []) = Inr post_sys"
    and "py_get pre_sys ''disk_usage_percent'' (JInt 0) = Inr (JInt a)"
    and "py_get post_sys ''disk_usage_percent'' (JInt 0) = Inr (JInt b)"
    and "compare_system pre post = Inr r"
  shows "problems r = (if 90 < b then 1 else 0) \<and>
         warnings r = (if b \<le> 90 \<and> a + 10 < b then 1 else 0) +
                      (if \<exists>t. Cpu_temp_high t \<in> set (changes r) then 1 else 0)"
proof -
  from assms(5) obtain pre_kernel post_kernel t2 post_temp hot where
    d: "check_disk (JInt a) (JInt b)
       (0, 0, if py_eq pre_kernel post_kernel then []
              else [Kernel_changed pre_kernel post_kernel]) = Inr t2"
    and r: "r = result ''system'' (if hot then warning (Cpu_temp_high post_temp) t2 else t2)"
    using assms(1-4) by (elim compare_system_Inr) simp
  from check_disk_cases[OF d] show ?thesis
    by (auto simp: r py_gt_def py_add_def split: if_splits)
qed

lemma compare_system_disk_only:
  "compare_system (JObj [(''system'', JObj [(''disk_usage_percent'', JInt a)])])
                  (JObj [(''system'', JObj [(''disk_usage_percent'', JInt b)])]) =
     Inr \<lparr>section_name = ''system'',
          problems = (if 90 < b then 1 else 0),
          warnings = (if 90 < b then 0 else if a + 10 < b then 1 else 0),
          changes = (if 90 < b then [Disk_critical (JInt b)]
                     else if a + 10 < b then [Disk_increased (JInt a) (JInt b)] else [])\<rparr>"
  by (simp add: compare_system_def check_disk_def cpu_temp_def py_gt_def py_add_def)

theorem system_disk_thresholds_witness:
  "(\<exists>r. compare_system (JObj [(''system'', JObj [(''disk_usage_percent'', JInt 50)])])
                        (JObj [(''system'', JObj [(''disk_usage_percent'', JInt 61)])]) = Inr r
        \<and> problems r = 0 \<and> warnings r = 1) \<and>
   (\<exists>r. compare_system (JObj [(''system'', JObj [(''disk_usage_percent'', JInt 50)])])
                        (JObj [(''system'', JObj [(''disk_usage_percent'', JInt 60)])]) = Inr r
        \<and> problems r = 0 \<and> warnings r = 0) \<and>
   (\<exists>r. compare_system (JObj [(''system'', JObj [(''disk_usage_percent'', JInt 85)])])
                        (JObj [(''system'', JObj [(''disk_usage_percent'', JInt 90)])]) = Inr r
        \<and> problems r = 0) \<and>
   (\<exists>r. compare_system (JObj [(''system'', JObj [(''disk_usage_percent'', JInt 85)])])
                        (JObj [(''system'', JObj [(''disk_usage_percent'', JInt 91)])]) = Inr r
        \<and> problems r = 1)"
proof -
  have run: "\<exists>r. compare_system (JObj [(''system'', JObj [(''disk_usage_percent'', JInt a)])])
                  (JObj [(''system'', JObj [(''disk_usage_percent'', JInt b)])]) = Inr r \<and>
               (\<forall>t. Cpu_temp_high t \<notin> set (changes r))" for a b
    by (simp add: compare_system_disk_only)
  have inst: "\<exists>r. compare_system (JObj [(''system'', JObj [(''disk_usage_percent'', JInt a)])])
                  (JObj [(''system'', JObj [(''disk_usage_percent'', JInt b)])]) = Inr r \<and>
               problems r = (if 90 < b then 1 else 0) \<and>
               warnings r = (if b \<le> 90 \<and> a + 10 < b then 1 else 0)" for a b
  proof -
    from run[of a b] obtain r where
      r: "compare_system (JObj [(''system'', JObj [(''disk_usage_percent'', JInt a)])])
            (JObj [(''system'', JObj [(''disk_usage_percent'', JInt b)])]) = Inr r"
      and t: "\<forall>t. Cpu_temp_high t \<notin> set (changes r)" by blast
    from system_disk_thresholds[OF _ _ _ _ r, of _ _ a b] t
    have "problems r = (if 90 < b then 1 else 0) \<and>
          warnings r = (if b \<le> 90 \<and> a + 10 < b then 1 else 0)" by simp
    with r show ?thesis by blast
  qed
  have a: "\<exists>r. compare_system (JObj [(''system'', JObj [(''disk_usage_percent'', JInt 50)])])
                  (JObj [(''system'', JObj [(''disk_usage_percent'', JInt 61)])]) = Inr r \<and>
               problems r = 0 \<and> warnings r = 1"
    using inst[of 50 61] by simp
  have b: "\<exists>r. compare_system (JObj [(''system'', JObj [(''disk_usage_percent'', JInt 50)])])
                  (JObj [(''system'', JObj [(''disk_usage_percent'', JInt 60)])]) = Inr r \<and>
               problems r = 0 \<and> warnings r = 0"
    using inst[of 50 60] by simp
  have c: "\<exists>r. compare_system (JObj [(''system'', JObj [(''disk_usage_percent'', JInt 85)])])
                  (JObj [(''system'', JObj [(''disk_usage_percent'', JInt 90)])]) = Inr r \<and>
               problems r = 0"
    using inst[of 85 90] by auto
  have d: "\<exists>r. compare_system (JObj [(''system'', JObj [(''disk_usage_percent'', JInt 85)])])
                  (JObj [(''system'', JObj [(''disk_usage_percent'', JInt 91)])]) = Inr r \<and>
               problems r = 1"
    using inst[of 85 91] by auto
  from a b c d show ?thesis by (intro conjI)
qed

text \<open>
  C9. The system comparator records at most one disk message. When the post disk usage
  is a number above 90 the message is the critical one and never the increase warning;
  the increase warning appears only when the post disk usage is at most 90.
\<close>

theorem system_one_disk_finding:
  assumes "compare_system pre post = Inr r"
  shows "length (filter is_disk_finding (changes r)) \<le> 1 \<and>
         (py_get post ''system'' (JObj []) = Inr post_sys \<longrightarrow>
          py_get post_sys ''disk_usage_percent'' (JInt 0) = Inr (JInt b) \<longrightarrow>
            (90 < b \<longrightarrow> Disk_critical (JInt b) \<in> set (changes r) \<and>
                        (\<forall>x y. Disk_increased x y \<notin> set (changes r))) \<and>
            ((\<exists>x y. Disk_increased x y \<in> set (changes r)) \<longrightarrow> b \<le> 90))"
proof -
  from assms obtain post_sys' pre_kernel post_kernel pre_disk post_disk t2 post_temp hot where
    s: "py_get post ''system'' (JObj []) = Inr post_sys'"
    and pd: "py_get post_sys' ''disk_usage_percent'' (JInt 0) = Inr post_disk"
    and d: "check_disk pre_disk post_disk
       (0, 0, if py_eq pre_kernel post_kernel then []
              else [Kernel_changed pre_kernel post_kernel]) = Inr t2"
    and r: "r = result ''system'' (if hot then warning (Cpu_temp_high post_temp) t2 else t2)"
    by (elim compare_system_Inr)
  from check_disk_cases[OF d] have 1: "length (filter is_disk_finding (changes r)) \<le> 1"
    by (auto simp: r is_disk_finding_def split: if_splits)
  have 2: "(90 < b \<longrightarrow> Disk_critical (JInt b) \<in> set (changes r) \<and>
                        (\<forall>x y. Disk_increased x y \<notin> set (changes r))) \<and>
            ((\<exists>x y. Disk_increased x y \<in> set (changes r)) \<longrightarrow> b \<le> 90)"
    if "py_get post ''system'' (JObj []) = Inr post_sys"
      "py_get post_sys ''disk_usage_percent'' (JInt 0) = Inr (JInt b)"
  proof -
    from that s pd have "post_disk = JInt b" by simp
    with check_disk_cases[OF d] show ?thesis
      by (auto simp: r py_gt_def split: if_splits)
  qed
  from 1 2 show ?thesis by blast
qed

theorem system_one_disk_finding_witness:
  "(\<exists>r. compare_system (JObj [(''system'', JObj [(''disk_usage_percent'', JInt 50)])])
                        (JObj [(''system'', JObj [(''disk_usage_percent'', JInt 95)])]) = Inr r
        \<and> changes r = [Disk_critical (JInt 95)]
        \<and> length (filter is_disk_finding (changes r)) \<le> 1
        \<and> (\<forall>x y. Disk_increased x y \<notin> set (changes r)))"
proof -
  have r: "compare_system (JObj [(''system'', JObj [(''disk_usage_percent'', JInt 50)])])
             (JObj [(''system'', JObj [(''disk_usage_percent'', JInt 95)])]) =
           Inr \<lparr>section_name = ''system'', problems = 1, warnings = 0,
                changes = [Disk_critical (JInt 95)]\<rparr>"
    by (simp add: compare_system_disk_only)
  from system_one_disk_finding[OF r, of "JObj [(''disk_usage_percent'', JInt 95)]" 95] r
  show ?thesis by simp
qed

section \<open>Boot validation\<close>

lemma number_or_string_py_int:
  "number_or_string v \<Longrightarrow>
     (\<exists>n. py_int int_of_str v = Inr n) \<or> py_int int_of_str v = Inl ValueError"
  by (cases v) (auto split: option.splits)

lemma validate_boot_info_run:
  assumes "py_get post ''boot_info'' JNull = Inr (JObj kvs)"
    and "map_of kvs ''available'' = None \<or> (\<exists>v. map_of kvs ''available'' = Some v \<and> py_truthy v)"
    and "\<forall>v. map_of kvs ''boot_duration_seconds'' = Some v \<longrightarrow> number_or_string v"
    and "phases = (case map_of kvs ''phases_completed'' of None \<Rightarrow> JInt 0 | Some v \<Rightarrow> v)"
    and "py_lt phases (JInt 13) = Inr incomplete"
  shows "\<exists>r. validate_boot_info int_of_str post = Inr r \<and>
             problems r = (if incomplete then 1 else 0) \<and>
             (incomplete \<longrightarrow> changes r \<noteq> [] \<and> hd (changes r) = Boot_incomplete phases)"
proof -
  have av: "py_truthy (case map_of kvs ''available'' of None \<Rightarrow> JBool True | Some v \<Rightarrow> v)"
    using assms(2) by auto
  show ?thesis
  proof (cases "map_of kvs ''boot_duration_seconds''")
    case None
    with assms(1,4,5) av show ?thesis
      by (cases incomplete) (simp_all add: validate_boot_info_def)
  next
    case (Some v)
    with assms(3) have "number_or_string v" by simp
    with assms(1,4,5) av Some show ?thesis
      by (cases v; cases incomplete)
         (simp_all add: validate_boot_info_def split: option.splits)
  qed
qed




text \<open>
  C2. The duration \<^verbatim>\<open>null\<close> is neither a number nor the string \<^verbatim>\<open>unknown\<close>:
  \<^verbatim>\<open>int(None)\<close> raises TypeError, which the handler for ValueError lets through, so
  boot validation returns no result, also with 12 phases completed.
\<close>

theorem boot_null_duration_raises:
  "validate_boot_info int_of_str (JObj [(''type'', JStr ''post-reboot''),
      (''boot_info'', JObj [(''available'', JBool True), (''phases_completed'', JInt 12),
                            (''boot_duration_seconds'', JNull)])]) = Inl TypeError"
  by (simp add: validate_boot_info_def)

text \<open>
  What boot validation does on the durations it handles: with the phases a number \<open>n\<close>,
  one problem exactly when \<open>n < 13\<close>; one warning exactly when the duration converts
  to a number above 300; no warning when it is \<^verbatim>\<open>unknown\<close>, absent, or a string
  that is no number.
\<close>

lemma validate_boot_info_counts:
  assumes "py_get post ''boot_info'' JNull = Inr boot_info"
    and "boot_info \<noteq> JNull"
    and "py_get boot_info ''available'' (JBool True) = Inr available"
    and "py_truthy available"
    and "py_get boot_info ''phases_completed'' (JInt 0) = Inr (JInt n)"
    and "py_get boot_info ''boot_duration_seconds'' (JStr ''unknown'') = Inr duration"
  shows "(duration \<noteq> JStr ''unknown'' \<longrightarrow> py_int int_of_str duration = Inr k \<longrightarrow>
            (\<exists>r. validate_boot_info int_of_str post = Inr r \<and>
                 problems r = (if n < 13 then 1 else 0) \<and>
                 warnings r = (if 300 < k then 1 else 0))) \<and>
         (duration = JStr ''unknown'' \<or> py_int int_of_str duration = Inl ValueError \<longrightarrow>
            validate_boot_info int_of_str post =
              Inr \<lparr>section_name = ''boot_info'', problems = (if n < 13 then 1 else 0),
                   warnings = 0,
                   changes = (if n < 13 then [Boot_incomplete (JInt n)] else [])\<rparr>)"
  using assms unfolding validate_boot_info_def
  by auto

lemma validate_boot_info_skipped:
  "py_get post ''boot_info'' JNull = Inr JNull \<Longrightarrow>
     validate_boot_info int_of_str post = Inr (result ''boot_info'' (0, 0, []))"
  "py_get post ''boot_info'' JNull = Inr boot_info \<Longrightarrow>
   py_get boot_info ''available'' (JBool True) = Inr available \<Longrightarrow> \<not> py_truthy available \<Longrightarrow>
     validate_boot_info int_of_str post = Inr (result ''boot_info'' (0, 0, []))"
  by (auto simp: validate_boot_info_def)

lemma run_comparisons_boot_gate:
  assumes "run_comparisons int_of_str pre post = Inr results"
    and "py_get post ''type'' JNull = Inr type"
  shows "if py_eq type (JStr ''post-reboot'')
         then \<exists>rs r. run_each comparators pre post = Inr rs \<and>
                validate_boot_info int_of_str post = Inr r \<and> results = rs @ [r]
         else run_each comparators pre post = Inr results"
  using assms unfolding run_comparisons_def
  by (auto simp: bnd_eq_Inr split: if_splits)

section \<open>Summary and exit status\<close>

text \<open>
  C7. A result with non-negative counts is in the critical list exactly when it has
  problems, in the warnings list exactly when it has warnings and no problem, in the
  info list exactly when it has changes and neither; so it is in exactly one of the
  three lists, or in none when it has no changes and no severity.
\<close>

theorem summary_buckets:
  assumes "r \<in> set results" and "0 \<le> problems r" and "0 \<le> warnings r"
  shows "(r \<in> set (critical results) \<longleftrightarrow> 0 < problems r) \<and>
         (r \<in> set (warnings_bucket results) \<longleftrightarrow> problems r = 0 \<and> 0 < warnings r) \<and>
         (r \<in> set (info_bucket results) \<longleftrightarrow>
            problems r = 0 \<and> warnings r = 0 \<and> changes r \<noteq> []) \<and>
         length (filter (\<lambda>bucket. r \<in> set bucket)
                   [critical results, warnings_bucket results, info_bucket results]) =
           (if problems r = 0 \<and> warnings r = 0 \<and> changes r = [] then 0 else 1)"
  using assms by (auto simp: critical_def warnings_bucket_def info_bucket_def)

theorem summary_buckets_witness:
  "length (filter (\<lambda>bucket.
       \<lparr>section_name = ''usb_devices'', problems = 0, warnings = 2,
        changes = [Usb_removed (JStr ''hub''), Usb_removed (JStr ''key'')]\<rparr> \<in> set bucket)
     [critical [\<lparr>section_name = ''usb_devices'', problems = 0, warnings = 2,
                changes = [Usb_removed (JStr ''hub''), Usb_removed (JStr ''key'')]\<rparr>],
      warnings_bucket [\<lparr>section_name = ''usb_devices'', problems = 0, warnings = 2,
                changes = [Usb_removed (JStr ''hub''), Usb_removed (JStr ''key'')]\<rparr>],
      info_bucket [\<lparr>section_name = ''usb_devices'', problems = 0, warnings = 2,
                changes = [Usb_removed (JStr ''hub''), Usb_removed (JStr ''key'')]\<rparr>]]) = 1"
  using summary_buckets
    [of "\<lparr>section_name = ''usb_devices'', problems = 0, warnings = 2,
          changes = [Usb_removed (JStr ''hub''), Usb_removed (JStr ''key'')]\<rparr>"
        "[\<lparr>section_name = ''usb_devices'', problems = 0, warnings = 2,
          changes = [Usb_removed (JStr ''hub''), Usb_removed (JStr ''key'')]\<rparr>]"]
  by simp

text \<open>
  C4. When a document cannot be loaded, \<^verbatim>\<open>main\<close> returns before any comparator runs,
  with no results and with status 1, the status of a comparison that found problems;
  status 2 is returned only when no snapshot files are determined.
\<close>

theorem load_failure_exit_status:
  "main \<lparr>pre_snapshot = Some ''pre.json'', post_snapshot = Some ''post.json'',
         auto_latest = False, json_out = False\<rparr> latest (\<lambda>path. None) strptime_ok
        int_of_str = Inr (1, []) \<and>
   main \<lparr>pre_snapshot = None, post_snapshot = None, auto_latest = True, json_out = False\<rparr>
        (None, None) load_snapshot strptime_ok int_of_str = Inr (2, [])"
  by (simp add: main_def snapshot_files_def not_loaded_def)

text \<open>
  Once both documents are loaded, a run that returns has the results of the comparators
  and the status 0 exactly when their problems sum to 0, else 1.
\<close>

lemma main_verdict:
  assumes "main args latest load_snapshot strptime_ok int_of_str = Inr (status, results)"
    and "snapshot_files args latest = Some (pre_file, post_file)"
    and "load_snapshot pre_file = Some pre" and "load_snapshot post_file = Some post"
    and "py_truthy pre" and "py_truthy post"
  shows "run_comparisons int_of_str pre post = Inr results \<and>
         status = (if total_problems results = 0 then 0 else 1)"
  using assms unfolding main_def
  by (auto simp: bnd_eq_Inr not_loaded_def)

section \<open>Every counted finding has a message\<close>

lemma tally_ok_init [simp]: "tally_ok (0, 0, [])"
  by (simp add: tally_ok_def)

lemma tally_ok_step [simp]:
  "tally_ok t \<Longrightarrow> tally_ok (problem m t)"
  "tally_ok t \<Longrightarrow> tally_ok (warning m t)"
  "tally_ok t \<Longrightarrow> tally_ok (info m t)"
  by (cases t; simp add: tally_ok_def)+

lemma result_ok_result [simp]: "result_ok (result n t) = tally_ok t"
  by (cases t) (simp add: tally_ok_def result_ok_def)

lemma result_ok_record [simp]:
  "result_ok \<lparr>section_name = n, problems = p, warnings = w, changes = c\<rparr> = tally_ok (p, w, c)"
  by (simp add: tally_ok_def result_ok_def)

lemma py_insort_length: "py_insort x ys = Inr zs \<Longrightarrow> length zs = Suc (length ys)"
  by (induction ys arbitrary: zs) (auto simp: bnd_eq_Inr split: if_splits)

lemma py_sorted_length: "py_sorted xs = Inr ys \<Longrightarrow> length ys = length xs"
  by (induction xs arbitrary: ys) (auto simp: bnd_eq_Inr dest: py_insort_length)

lemma problems_for_ok: "problems_for f s t = Inr t' \<Longrightarrow> tally_ok t \<Longrightarrow> tally_ok t'"
  by (cases t) (auto simp: problems_for_def tally_ok_def bnd_eq_Inr
        dest: py_sorted_length split: if_splits)

lemma warnings_for_ok: "warnings_for f s t = Inr t' \<Longrightarrow> tally_ok t \<Longrightarrow> tally_ok t'"
  by (cases t) (auto simp: warnings_for_def tally_ok_def bnd_eq_Inr
        dest: py_sorted_length split: if_splits)

lemma infos_for_ok: "infos_for f s t = Inr t' \<Longrightarrow> tally_ok t \<Longrightarrow> tally_ok t'"
  by (cases t) (auto simp: infos_for_def tally_ok_def bnd_eq_Inr
        dest: py_sorted_length split: if_splits)

lemma if_eq_Inr:
  "((if c then m else n) = Inr r) = ((c \<and> m = Inr r) \<or> (\<not> c \<and> n = Inr r))"
  by simp

lemma tally_ok_if [simp]:
  "tally_ok t \<Longrightarrow> tally_ok (if c then problem m t else t)"
  "tally_ok t \<Longrightarrow> tally_ok (if c then warning m t else t)"
  "tally_ok t \<Longrightarrow> tally_ok (if c then info m t else t)"
  "tally_ok t \<Longrightarrow> tally_ok (if c then t else problem m t)"
  "tally_ok t \<Longrightarrow> tally_ok (if c then t else warning m t)"
  "tally_ok t \<Longrightarrow> tally_ok (if c then t else info m t)"
  by simp_all

lemma Inr_tally_ok: "Inr t = Inr t' \<Longrightarrow> tally_ok t \<Longrightarrow> tally_ok t'"
  by simp

lemma check_disk_ok: "check_disk a b t = Inr t' \<Longrightarrow> tally_ok t \<Longrightarrow> tally_ok t'"
  by (auto dest!: check_disk_cases)

lemma compare_system_ok: "compare_system pre post = Inr r \<Longrightarrow> result_ok r"
proof (erule compare_system_Inr)
  fix pre_kernel post_kernel pre_disk post_disk t2 post_temp hot
  assume d: "check_disk pre_disk post_disk
       (0, 0, if py_eq pre_kernel post_kernel then []
              else [Kernel_changed pre_kernel post_kernel]) = Inr t2"
    and r: "r = result ''system'' (if hot then warning (Cpu_temp_high post_temp) t2 else t2)"
  have "tally_ok (0, 0, if py_eq pre_kernel post_kernel then []
              else [Kernel_changed pre_kernel post_kernel])"
    by (simp add: tally_ok_def)
  with d have "tally_ok t2" by (rule check_disk_ok)
  with r show "result_ok r" by simp
qed

lemma compare_services_ok:
  assumes "compare_services pre post = Inr r" shows "result_ok r"
proof -
  from assms obtain s1 s2 s3 t1 t2 t3 where
    "problems_for Service_stopped s1 (0, 0, []) = Inr t1"
    "infos_for Service_started s2 t1 = Inr t2"
    "problems_for Service_failed s3 t2 = Inr t3"
    "r = result ''services'' t3"
    unfolding compare_services_def Let_def bnd_eq_Inr by blast
  then show ?thesis
    by (simp add: problems_for_ok[OF _ infos_for_ok[OF _ problems_for_ok]])
qed

lemma docker_loop_ok: "tally_ok t \<Longrightarrow> tally_ok (docker_loop ns post_names t)"
  by (induction ns arbitrary: t) (simp_all split: option.splits)

lemma compare_docker_ok:
  assumes "compare_docker pre post = Inr r" shows "result_ok r"
proof -
  from assms[unfolded compare_docker_def bnd_eq_Inr if_eq_Inr sum.inject]
  consider "r = result ''docker'' (0, 0, [])"
    | s pre_names post_names t where
       "infos_for Container_new s (docker_loop pre_names post_names (0, 0, [])) = Inr t"
       "result ''docker'' t = r"
    by blast
  then show ?thesis
  proof cases
    case 1
    then show ?thesis by simp
  next
    case 2
    from 2(1) have "tally_ok t" by (rule infos_for_ok) (simp add: docker_loop_ok)
    with 2(2) show ?thesis by auto
  qed
qed

lemma iface_loop_ok: "iface_loop es post_ifaces t = Inr t' \<Longrightarrow> tally_ok t \<Longrightarrow> tally_ok t'"
proof (induction es arbitrary: t)
  case Nil
  then show ?case by simp
next
  case (Cons entry rest)
  show ?case
  proof (cases "dict_get post_ifaces (fst entry)")
    case None
    with Cons.prems have "iface_loop rest post_ifaces (problem (Iface_missing (fst entry)) t) = Inr t'"
      by simp
    then show ?thesis by (rule Cons.IH) (simp add: Cons.prems(2))
  next
    case (Some post_data)
    from Cons.prems(1)[unfolded iface_loop.simps Some option.case bnd_eq_Inr sum.inject]
    obtain c1 m1 t1 c2 m2 t2 c3 m3 where
      "(if c1 then t else warning m1 t) = t1"
      "(if c2 then t1 else warning m2 t1) = t2"
      "iface_loop rest post_ifaces (if c3 then t2 else problem m3 t2) = Inr t'"
      by blast
    moreover from this(1) Cons.prems(2) have "tally_ok t1" by auto
    moreover from this calculation(2) have "tally_ok t2" by auto
    ultimately show ?thesis by (auto intro: Cons.IH)
  qed
qed

lemma compare_network_interfaces_ok:
  assumes "compare_network_interfaces pre post = Inr r" shows "result_ok r"
proof -
  from assms[unfolded compare_network_interfaces_def bnd_eq_Inr sum.inject]
  obtain es a t1 c m where "iface_loop es a (0, 0, []) = Inr t1"
    "result ''network'' (if c then t1 else warning m t1) = r"
    by blast
  from this(1) have "tally_ok t1" by (rule iface_loop_ok) simp
  with \<open>result ''network'' (if c then t1 else warning m t1) = r\<close> show ?thesis by auto
qed

lemma compare_route_guardian_ok:
  assumes "compare_route_guardian pre post = Inr r" shows "result_ok r"
proof -
  from assms[unfolded compare_route_guardian_def bnd_eq_Inr if_eq_Inr sum.inject]
  consider "r = result ''route_guardian'' (0, 0, [])"
    | inactive t1 c2 m2 t2 no_dsl t3 no_lte where
      "(if inactive then problem Rg_service_inactive (0, 0, []) else (0, 0, [])) = t1"
      "(if c2 then t1 else warning m2 t1) = t2"
      "(if no_dsl then problem Rg_dsl_missing t2 else t2) = t3"
      "(result ''route_guardian'' (if no_lte then warning Rg_lte_missing t3 else t3)) = r"
    by blast
  then show ?thesis
  proof cases
    case 1
    then show ?thesis by simp
  next
    case 2
    from 2(1) have "tally_ok t1" by auto
    with 2(2) have "tally_ok t2" by auto
    with 2(3) have "tally_ok t3" by auto
    with 2(4) show ?thesis by auto
  qed
qed

lemma compare_wireguard_ok:
  assumes "compare_wireguard pre post = Inr r" shows "result_ok r"
proof -
  from assms[unfolded compare_wireguard_def bnd_eq_Inr if_eq_Inr sum.inject]
  consider "r = result ''wireguard'' (0, 0, [])"
    | down t1 c2 m2 where
      "(if down then problem Wg_inactive (0, 0, []) else (0, 0, [])) = t1"
      "result ''wireguard'' (if c2 then t1 else warning m2 t1) = r"
    by blast
  then show ?thesis
  proof cases
    case 1
    then show ?thesis by simp
  next
    case 2
    from 2(1) have "tally_ok t1" by auto
    with 2(2) show ?thesis by auto
  qed
qed

lemma flag_warning_ok: "flag_warning d k m t = Inr t' \<Longrightarrow> tally_ok t \<Longrightarrow> tally_ok t'"
  by (auto simp: flag_warning_def bnd_eq_Inr)

lemma compare_hardware_throttling_ok:
  assumes "compare_hardware_throttling pre post = Inr r" shows "result_ok r"
proof -
  from assms[unfolded compare_hardware_throttling_def bnd_eq_Inr if_eq_Inr sum.inject]
  consider "r = result ''hardware_throttling'' (0, 0, [])"
    | d t1 t2 t3 where
      "flag_warning d ''under_voltage'' Hw_under_voltage (0, 0, []) = Inr t1"
      "flag_warning d ''currently_throttled'' Hw_throttled t1 = Inr t2"
      "flag_warning d ''soft_temp_limit'' Hw_soft_temp t2 = Inr t3"
      "result ''hardware_throttling'' t3 = r"
    by blast
  then show ?thesis
  proof cases
    case 1
    then show ?thesis by simp
  next
    case 2
    from 2(1) have "tally_ok t1" by (rule flag_warning_ok) simp
    with 2(2) have "tally_ok t2" by (rule flag_warning_ok)
    with 2(3) have "tally_ok t3" by (rule flag_warning_ok)
    with 2(4) show ?thesis by auto
  qed
qed

lemma compare_memory_detail_ok:
  assumes "compare_memory_detail pre post = Inr r" shows "result_ok r"
proof -
  from assms[unfolded compare_memory_detail_def bnd_eq_Inr if_eq_Inr sum.inject]
  obtain high m where
      "result ''memory_detail'' (if high then warning m (0, 0, []) else (0, 0, [])) = r"
    by blast
  then show ?thesis by auto
qed

lemma int_case_eq_Inr:
  "((case m of Inr n \<Rightarrow> Inr (f n) | Inl ValueError \<Rightarrow> Inr a | Inl e \<Rightarrow> Inl e) = Inr r) =
   ((\<exists>n. m = Inr n \<and> f n = r) \<or> (m = Inl ValueError \<and> a = r))"
  by (auto split: sum.splits pyerr.splits)

lemma validate_boot_info_ok:
  assumes "validate_boot_info int_of_str post = Inr r" shows "result_ok r"
proof -
  from assms[unfolded validate_boot_info_def bnd_eq_Inr if_eq_Inr int_case_eq_Inr sum.inject]
  consider "r = result ''boot_info'' (0, 0, [])"
    | c1 m1 t1 c2 m2 where "(if c1 then problem m1 (0, 0, []) else (0, 0, [])) = t1"
       "result ''boot_info'' (if c2 then warning m2 t1 else t1) = r"
    | c1 m1 t1 where "(if c1 then problem m1 (0, 0, []) else (0, 0, [])) = t1"
       "result ''boot_info'' t1 = r"
    by blast
  then show ?thesis
  proof cases
    case 1
    then show ?thesis by simp
  next
    case 2
    from 2(1) have "tally_ok t1" by auto
    with 2(2) show ?thesis by auto
  next
    case 3
    from 3(1) have "tally_ok t1" by auto
    with 3(2) show ?thesis by auto
  qed
qed

lemma fleet_loop_ok: "fleet_loop ds pre_fleet post_fleet t = Inr t' \<Longrightarrow> tally_ok t \<Longrightarrow> tally_ok t'"
proof (induction ds arbitrary: t)
  case Nil
  then show ?case by simp
next
  case (Cons device rest)
  from Cons.prems(1)[unfolded fleet_loop.simps bnd_eq_Inr if_eq_Inr sum.inject]
  obtain t1 where "(\<exists>m. warning m t = t1) \<or> (\<exists>m. info m t = t1) \<or> t = t1"
    "fleet_loop rest pre_fleet post_fleet t1 = Inr t'"
    by blast
  moreover from this(1) Cons.prems(2) have "tally_ok t1" by auto
  ultimately show ?case by (auto intro: Cons.IH)
qed

lemma compare_pi_zero_fleet_ok:
  assumes "compare_pi_zero_fleet pre post = Inr r" shows "result_ok r"
proof -
  from assms[unfolded compare_pi_zero_fleet_def bnd_eq_Inr if_eq_Inr sum.inject]
  consider "r = result ''pi_zero_fleet'' (0, 0, [])"
    | a b t where "fleet_loop devices a b (0, 0, []) = Inr t" "result ''pi_zero_fleet'' t = r"
    by blast
  then show ?thesis
  proof cases
    case 1
    then show ?thesis by simp
  next
    case 2
    from 2(1) have "tally_ok t" by (rule fleet_loop_ok) simp
    with 2(2) show ?thesis by auto
  qed
qed

lemma critical_loop_ok: "critical_loop es pre_crit t = Inr t' \<Longrightarrow> tally_ok t \<Longrightarrow> tally_ok t'"
proof (induction es arbitrary: t)
  case Nil
  then show ?case by simp
next
  case (Cons entry rest)
  from Cons.prems(1)[unfolded critical_loop.simps bnd_eq_Inr if_eq_Inr sum.inject]
  obtain c m t1 t2 where "(if c then t else problem m t) = t1"
    "(\<exists>m. warning m t1 = t2) \<or> t1 = t2"
    "critical_loop rest pre_crit t2 = Inr t'"
    by blast
  moreover from this(1) Cons.prems(2) have "tally_ok t1" by auto
  moreover from this calculation(2) have "tally_ok t2" by auto
  ultimately show ?case by (auto intro: Cons.IH)
qed

lemma compare_critical_services_ok:
  assumes "compare_critical_services pre post = Inr r" shows "result_ok r"
proof -
  from assms[unfolded compare_critical_services_def bnd_eq_Inr if_eq_Inr sum.inject]
  consider "r = result ''critical_services'' (0, 0, [])"
    | es a t where "critical_loop es a (0, 0, []) = Inr t" "result ''critical_services'' t = r"
    by blast
  then show ?thesis
  proof cases
    case 1
    then show ?thesis by simp
  next
    case 2
    from 2(1) have "tally_ok t" by (rule critical_loop_ok) simp
    with 2(2) show ?thesis by auto
  qed
qed

lemma checksum_loop_ok: "checksum_loop es post_checksums t = Inr t' \<Longrightarrow> tally_ok t \<Longrightarrow> tally_ok t'"
proof (induction es arbitrary: t)
  case Nil
  then show ?case by simp
next
  case (Cons entry rest)
  from Cons.prems(1)[unfolded checksum_loop.simps bnd_eq_Inr]
  obtain c m where "checksum_loop rest post_checksums (if c then t else warning m t) = Inr t'"
    by blast
  then show ?case by (rule Cons.IH) (simp add: Cons.prems(2))
qed

lemma compare_config_checksums_ok:
  assumes "compare_config_checksums pre post = Inr r" shows "result_ok r"
proof -
  from assms[unfolded compare_config_checksums_def bnd_eq_Inr sum.inject]
  obtain es a t where "checksum_loop es a (0, 0, []) = Inr t" "result ''config_checksums'' t = r"
    by blast
  from this(1) have "tally_ok t" by (rule checksum_loop_ok) simp
  with \<open>result ''config_checksums'' t = r\<close> show ?thesis by auto
qed

lemma compare_usb_devices_ok:
  assumes "compare_usb_devices pre post = Inr r" shows "result_ok r"
proof -
  from assms obtain cm s1 s2 t2 t3 where
    "warnings_for Usb_removed s1 (int (length cm), 0, map Usb_missing cm) = Inr t2"
    "infos_for Usb_added s2 t2 = Inr t3" "r = result ''usb_devices'' t3"
    unfolding compare_usb_devices_def Let_def bnd_eq_Inr by blast
  moreover have "tally_ok (int (length cm), 0, map Usb_missing cm)"
    by (simp add: tally_ok_def)
  ultimately show ?thesis
    by (simp add: infos_for_ok[OF _ warnings_for_ok])
qed

lemma compare_cron_jobs_ok:
  assumes "compare_cron_jobs pre post = Inr r" shows "result_ok r"
proof -
  from assms obtain s1 s2 t1 t2 where
    "warnings_for Cron_removed s1 (0, 0, []) = Inr t1"
    "infos_for Cron_added s2 t1 = Inr t2" "r = result ''cron_jobs'' t2"
    unfolding compare_cron_jobs_def bnd_eq_Inr by blast
  then show ?thesis
    by (simp add: infos_for_ok[OF _ warnings_for_ok])
qed

lemma compare_networkmanager_ok:
  assumes "compare_networkmanager pre post = Inr r" shows "result_ok r"
proof -
  from assms obtain s1 s2 t1 t2 where
    "warnings_for Nm_deactivated s1 (0, 0, []) = Inr t1"
    "infos_for Nm_activated s2 t1 = Inr t2" "r = result ''networkmanager'' t2"
    unfolding compare_networkmanager_def bnd_eq_Inr by blast
  then show ?thesis
    by (simp add: infos_for_ok[OF _ warnings_for_ok])
qed

text \<open>
  C8. Whatever the two documents are, a result that a comparator returns has
  \<open>problems + warnings \<le> length changes\<close> (and counts that are not negative): every
  step that counts a problem or a warning appends a message.
\<close>

theorem changes_cover_severity:
  "(\<forall>c \<in> set comparators. \<forall>r. c pre post = Inr r \<longrightarrow>
      0 \<le> problems r \<and> 0 \<le> warnings r \<and>
      problems r + warnings r \<le> int (length (changes r))) \<and>
   (\<forall>r. validate_boot_info int_of_str post = Inr r \<longrightarrow>
      0 \<le> problems r \<and> 0 \<le> warnings r \<and>
      problems r + warnings r \<le> int (length (changes r)))"
proof -
  have "result_ok r" if "c \<in> set comparators" "c pre post = Inr r" for c r
    using that unfolding comparators_def
    by (auto intro: compare_system_ok compare_services_ok compare_docker_ok
        compare_network_interfaces_ok compare_usb_devices_ok compare_route_guardian_ok
        compare_pi_zero_fleet_ok compare_networkmanager_ok compare_wireguard_ok
        compare_hardware_throttling_ok compare_critical_services_ok
        compare_config_checksums_ok compare_memory_detail_ok compare_cron_jobs_ok)
  moreover have "result_ok r" if "validate_boot_info int_of_str post = Inr r" for r
    using that by (rule validate_boot_info_ok)
  ultimately show ?thesis unfolding result_ok_def by blast
qed

lemma compare_usb_devices_scenario:
  "compare_usb_devices
     (JObj [(''usb_devices'', JList [JStr ''RTL8153 Gigabit'', JStr ''Generic Hub''])])
     (JObj [(''usb_devices'', JList [JStr ''Generic Hub''])]) =
   Inr \<lparr>section_name = ''usb_devices'', problems = 1, warnings = 0,
        changes = [Usb_missing (JStr ''RTL8153 Gigabit'')]\<rparr>"
  by (simp add: compare_usb_devices_def py_set_def set_add_def py_mem_def set_diff_def
      warnings_for_def infos_for_def)

theorem changes_cover_severity_witness:
  "\<exists>r. compare_usb_devices
     (JObj [(''usb_devices'', JList [JStr ''RTL8153 Gigabit'', JStr ''Generic Hub''])])
     (JObj [(''usb_devices'', JList [JStr ''Generic Hub''])]) = Inr r \<and>
     problems r = 1 \<and> warnings r = 0 \<and> length (changes r) = 1 \<and>
     problems r + warnings r \<le> int (length (changes r))"
proof -
  have "compare_usb_devices \<in> set comparators"
    by (simp add: comparators_def)
  with changes_cover_severity
    [of "JObj [(''usb_devices'', JList [JStr ''RTL8153 Gigabit'', JStr ''Generic Hub''])]"
        "JObj [(''usb_devices'', JList [JStr ''Generic Hub''])]"]
  show ?thesis by (simp add: compare_usb_devices_scenario)
qed

section \<open>Services as sets of names\<close>

lemma py_mem_str [simp]: "py_mem (JStr x) (map JStr ys) \<longleftrightarrow> x \<in> set ys"
  by (induction ys) (auto simp: py_mem_def)

lemma set_of_list_str:
  "\<exists>ys. set_of_list (map JStr acc) (map JStr xs) = Inr (map JStr ys) \<and>
        set ys = set acc \<union> set xs \<and> (distinct acc \<longrightarrow> distinct ys)"
proof (induction xs arbitrary: acc)
  case Nil
  then show ?case by auto
next
  case (Cons x xs)
  show ?case
  proof (cases "x \<in> set acc")
    case True
    with Cons[of acc] show ?thesis by (auto simp: set_add_def)
  next
    case False
    with Cons[of "acc @ [x]"] show ?thesis by (auto simp: set_add_def)
  qed
qed

lemma py_set_str:
  "\<exists>ys. py_set (JList (map JStr xs)) = Inr (map JStr ys) \<and> set ys = set xs \<and> distinct ys"
  using set_of_list_str[of "[]" xs] by (auto simp: py_set_def)

lemma set_discard_str [simp]:
  "set_discard (map JStr ys) (JStr b) = map JStr (filter (\<lambda>y. y \<noteq> b) ys)"
  by (induction ys) (auto simp: set_discard_def)

lemma set_diff_str [simp]:
  "set_diff (map JStr a) (map JStr b) = map JStr (filter (\<lambda>x. x \<notin> set b) a)"
  by (induction a) (auto simp: set_diff_def)

lemma py_insort_str:
  "sorted zs \<Longrightarrow> x \<notin> set zs \<Longrightarrow>
     \<exists>zs'. py_insort (JStr x) (map JStr zs) = Inr (map JStr zs') \<and> sorted zs' \<and>
           set zs' = insert x (set zs) \<and> distinct zs' = distinct zs"
proof (induction zs)
  case Nil
  then show ?case by (auto intro!: exI[of _ "[x]"])
next
  case (Cons z zs)
  show ?case
  proof (cases "x < z")
    case True
    with Cons.prems have "sorted (x # z # zs)"
      by (auto intro: less_imp_le order_trans[of x z])
    with True Cons.prems show ?thesis by (intro exI[of _ "x # z # zs"]) auto
  next
    case False
    from Cons obtain zs' where
      "py_insort (JStr x) (map JStr zs) = Inr (map JStr zs')" "sorted zs'"
      "set zs' = insert x (set zs)" "distinct zs' = distinct zs"
      by auto
    moreover from False Cons.prems this have "sorted (z # zs')"
      by (auto simp: not_less)
    ultimately show ?thesis using False Cons.prems
      by (intro exI[of _ "z # zs'"]) auto
  qed
qed

lemma py_sorted_str:
  "distinct ys \<Longrightarrow> py_sorted (map JStr ys) = Inr (map JStr (sorted_list_of_set (set ys)))"
proof -
  have "distinct ys \<Longrightarrow> \<exists>zs. py_sorted (map JStr ys) = Inr (map JStr zs) \<and> sorted zs \<and>
          set zs = set ys \<and> distinct zs"
  proof (induction ys)
    case Nil
    then show ?case by auto
  next
    case (Cons y ys)
    then obtain zs where zs: "py_sorted (map JStr ys) = Inr (map JStr zs)" "sorted zs"
      "set zs = set ys" "distinct zs" by auto
    with Cons.prems have "y \<notin> set zs" by simp
    from py_insort_str[OF zs(2) this] zs show ?case by auto
  qed
  moreover assume "distinct ys"
  ultimately obtain zs where "py_sorted (map JStr ys) = Inr (map JStr zs)" "sorted zs"
          "set zs = set ys" "distinct zs" by blast
  then show ?thesis
    by (metis sorted_list_of_set.idem_if_sorted_distinct)
qed


lemma for_str:
  assumes "distinct ys"
  shows "problems_for f (map JStr ys) (p, w, c) =
           Inr (p + int (card (set ys)), w, c @ map (f \<circ> JStr) (sorted_list_of_set (set ys)))"
    and "warnings_for f (map JStr ys) (p, w, c) =
           Inr (p, w + int (card (set ys)), c @ map (f \<circ> JStr) (sorted_list_of_set (set ys)))"
    and "infos_for f (map JStr ys) (p, w, c) =
           Inr (p, w, c @ map (f \<circ> JStr) (sorted_list_of_set (set ys)))"
  using assms
  by (simp_all add: problems_for_def warnings_for_def infos_for_def py_sorted_str distinct_card)

lemma service_set_str:
  assumes "py_get doc ''services'' (JObj []) = Inr svc"
    and "py_get svc k (JList []) = Inr (JList (map JStr xs))"
  shows "\<exists>ys. service_set doc k = Inr (map JStr ys) \<and> set ys = set xs \<and> distinct ys"
  using assms py_set_str[of xs] by (simp add: service_set_def)

lemma compare_services_warnings:
  assumes "compare_services pre post = Inr r" shows "warnings r = 0"
proof -
  from assms[unfolded compare_services_def Let_def bnd_eq_Inr sum.inject]
  obtain s1 s2 s3 t1 t2 t3 where
    "problems_for Service_stopped s1 (0, 0, []) = Inr t1"
    "infos_for Service_started s2 t1 = Inr t2"
    "problems_for Service_failed s3 t2 = Inr t3"
    "result ''services'' t3 = r"
    by blast
  then show ?thesis
    by (cases t1; cases t2; cases t3)
       (auto simp: problems_for_def infos_for_def bnd_eq_Inr split: if_splits)
qed

text \<open>
  C6. The services comparator never counts a warning. When the running and failed lists
  of both documents are lists of names, it counts one problem for each name running
  before and not after, one for each name failed after and not before once the marker
  is taken out of both failed sets, and records the stopped, the started and the newly
  failed names, each group in sorted order; the started names count nothing.
\<close>

theorem compare_services_sets:
  "(\<forall>r. compare_services pre post = Inr r \<longrightarrow> warnings r = 0) \<and>
   (py_get pre ''services'' (JObj []) = Inr pre_svc \<longrightarrow>
    py_get post ''services'' (JObj []) = Inr post_svc \<longrightarrow>
    py_get pre_svc ''running'' (JList []) = Inr (JList (map JStr pre_running)) \<longrightarrow>
    py_get post_svc ''running'' (JList []) = Inr (JList (map JStr post_running)) \<longrightarrow>
    py_get pre_svc ''failed'' (JList []) = Inr (JList (map JStr pre_failed)) \<longrightarrow>
    py_get post_svc ''failed'' (JList []) = Inr (JList (map JStr post_failed)) \<longrightarrow>
    compare_services pre post =
      Inr \<lparr>section_name = ''services'',
           problems = int (card (set pre_running - set post_running)) +
                      int (card ((set post_failed - {bullet}) - (set pre_failed - {bullet}))),
           warnings = 0,
           changes =
             map (Service_stopped \<circ> JStr)
               (sorted_list_of_set (set pre_running - set post_running)) @
             map (Service_started \<circ> JStr)
               (sorted_list_of_set (set post_running - set pre_running)) @
             map (Service_failed \<circ> JStr)
               (sorted_list_of_set
                  ((set post_failed - {bullet}) - (set pre_failed - {bullet})))\<rparr>)"
proof (intro conjI impI allI)
  fix r assume "compare_services pre post = Inr r"
  then show "warnings r = 0" by (rule compare_services_warnings)
next
  assume a: "py_get pre ''services'' (JObj []) = Inr pre_svc"
    "py_get post ''services'' (JObj []) = Inr post_svc"
    "py_get pre_svc ''running'' (JList []) = Inr (JList (map JStr pre_running))"
    "py_get post_svc ''running'' (JList []) = Inr (JList (map JStr post_running))"
    "py_get pre_svc ''failed'' (JList []) = Inr (JList (map JStr pre_failed))"
    "py_get post_svc ''failed'' (JList []) = Inr (JList (map JStr post_failed))"
  from service_set_str[OF a(1) a(3)] obtain pr where
    pr: "service_set pre ''running'' = Inr (map JStr pr)" "set pr = set pre_running" "distinct pr"
    by blast
  from service_set_str[OF a(2) a(4)] obtain qr where
    qr: "service_set post ''running'' = Inr (map JStr qr)" "set qr = set post_running" "distinct qr"
    by blast
  from service_set_str[OF a(1) a(5)] obtain pf where
    pf: "service_set pre ''failed'' = Inr (map JStr pf)" "set pf = set pre_failed" "distinct pf"
    by blast
  from service_set_str[OF a(2) a(6)] obtain qf where
    qf: "service_set post ''failed'' = Inr (map JStr qf)" "set qf = set post_failed" "distinct qf"
    by blast
  let ?stopped = "filter (\<lambda>x. x \<notin> set qr) pr"
  let ?started = "filter (\<lambda>x. x \<notin> set pr) qr"
  let ?failed = "filter (\<lambda>x. x \<notin> set (filter (\<lambda>y. y \<noteq> bullet) pf)) (filter (\<lambda>y. y \<noteq> bullet) qf)"
  have d: "distinct ?stopped" "distinct ?started" "distinct ?failed"
    using pr qr qf by simp_all
  have s: "set ?stopped = set pre_running - set post_running"
    "set ?started = set post_running - set pre_running"
    "set ?failed = (set post_failed - {bullet}) - (set pre_failed - {bullet})"
    using pr qr pf qf by auto
  show "compare_services pre post =
      Inr \<lparr>section_name = ''services'',
           problems = int (card (set pre_running - set post_running)) +
                      int (card ((set post_failed - {bullet}) - (set pre_failed - {bullet}))),
           warnings = 0,
           changes =
             map (Service_stopped \<circ> JStr)
               (sorted_list_of_set (set pre_running - set post_running)) @
             map (Service_started \<circ> JStr)
               (sorted_list_of_set (set post_running - set pre_running)) @
             map (Service_failed \<circ> JStr)
               (sorted_list_of_set
                  ((set post_failed - {bullet}) - (set pre_failed - {bullet})))\<rparr>"
    unfolding compare_services_def Let_def pr(1) qr(1) pf(1) qf(1) bnd_Inr
      set_discard_str set_diff_str
      for_str(1)[OF d(1)] for_str(3)[OF d(2)] for_str(1)[OF d(3)] s
    by simp
qed

theorem compare_services_sets_witness:
  "compare_services
     (JObj [(''services'', JObj [(''running'', JList [JStr ''A'', JStr ''B'', JStr ''C'']),
                                 (''failed'', JList [JStr bullet])])])
     (JObj [(''services'', JObj [(''running'', JList [JStr ''B'', JStr ''C'', JStr ''D'']),
                                 (''failed'', JList [JStr bullet])])]) =
   Inr \<lparr>section_name = ''services'', problems = 1, warnings = 0,
        changes = [Service_stopped (JStr ''A''), Service_started (JStr ''D'')]\<rparr>"
proof -
  have 1: "{''A'', ''B'', ''C''} - {''B'', ''C'', ''D''} = {''A''}"
    and 2: "{''B'', ''C'', ''D''} - {''A'', ''B'', ''C''} = {''D''}"
    by auto
  from compare_services_sets
    [of "JObj [(''services'', JObj [(''running'', JList [JStr ''A'', JStr ''B'', JStr ''C'']),
                                 (''failed'', JList [JStr bullet])])]"
        "JObj [(''services'', JObj [(''running'', JList [JStr ''B'', JStr ''C'', JStr ''D'']),
                                 (''failed'', JList [JStr bullet])])]"
        "JObj [(''running'', JList [JStr ''A'', JStr ''B'', JStr ''C'']),
                                 (''failed'', JList [JStr bullet])]"
        "JObj [(''running'', JList [JStr ''B'', JStr ''C'', JStr ''D'']),
                                 (''failed'', JList [JStr bullet])]"
        "[''A'', ''B'', ''C'']" "[''B'', ''C'', ''D'']" "[bullet]" "[bullet]"]
  show ?thesis by (simp add: 1 2)
qed

section \<open>Documents with the same sections\<close>

lemma wf_items_iff: "wf_items kvs \<longleftrightarrow> (\<forall>kv \<in> set kvs. wf_json (snd kv))"
  by (induction kvs) auto

lemma py_eq_list_refl: "(\<And>x. x \<in> set xs \<Longrightarrow> py_eq x x) \<Longrightarrow> py_eq_list xs xs"
  by (induction xs) auto

lemma py_eq_items_refl:
  "(\<And>kv. kv \<in> set xs \<Longrightarrow> map_of ys (fst kv) = Some (snd kv) \<and> py_eq (snd kv) (snd kv)) \<Longrightarrow>
     py_eq_items xs ys"
  by (induction xs) auto

lemma py_eq_refl: "wf_json v \<Longrightarrow> py_eq v v"
proof (induction v)
  case (JList xs)
  then show ?case by (auto intro!: py_eq_list_refl simp: list_all_iff)
next
  case (JObj kvs)
  have "py_eq_items kvs kvs"
  proof (rule py_eq_items_refl)
    fix kv assume kv: "kv \<in> set kvs"
    with JObj.prems have "map_of kvs (fst kv) = Some (snd kv)" by simp
    moreover from kv JObj.prems have "wf_json (snd kv)" by (simp add: wf_items_iff)
    then have "py_eq (snd kv) (snd kv)"
      by (intro JObj.IH[OF kv, of "snd kv"]) (auto intro: snds.intros)
    ultimately show "map_of kvs (fst kv) = Some (snd kv) \<and> py_eq (snd kv) (snd kv)" by simp
  qed
  then show ?case by simp
qed auto

lemma py_lt_list_irrefl: "(\<And>x. x \<in> set xs \<Longrightarrow> py_eq x x) \<Longrightarrow> py_lt_list xs xs = Inr False"
  by (induction xs) auto

lemma py_lt_irrefl: "wf_json v \<Longrightarrow> py_lt v v = Inr b \<Longrightarrow> \<not> b"
  by (cases v) (auto simp: py_lt_list_irrefl py_eq_refl list_all_iff)

lemma py_eq_hashable: "py_hashable a \<Longrightarrow> py_hashable b \<Longrightarrow> py_eq a b \<longleftrightarrow> hash_key a = hash_key b"
  by (cases a; cases b) auto

lemma py_eq_refl_hashable: "py_hashable a \<Longrightarrow> py_eq a a"
  by (cases a) auto

lemma py_get_wf: "py_get d k dflt = Inr v \<Longrightarrow> wf_json d \<Longrightarrow> wf_json dflt \<Longrightarrow> wf_json v"
  by (cases d) (auto simp: wf_items_iff split: option.splits dest!: map_of_SomeD)

lemma py_iter_wf: "py_iter v = Inr xs \<Longrightarrow> wf_json v \<Longrightarrow> x \<in> set xs \<Longrightarrow> wf_json x"
  by (cases v) (auto simp: list_all_iff)

lemma same_get:
  "same_sections pre post \<Longrightarrow> k \<in> set section_keys \<Longrightarrow> py_get pre k dflt = py_get post k dflt"
  by (cases pre; cases post) (auto simp: same_sections_def list_all_iff)

lemma set_add_hashable:
  "py_hashable x \<Longrightarrow> \<forall>y \<in> set s. py_hashable y \<Longrightarrow> \<forall>y \<in> set (set_add s x). py_hashable y"
  by (simp add: set_add_def)

lemma set_of_list_hashable:
  "set_of_list s xs = Inr s' \<Longrightarrow> \<forall>x \<in> set s. py_hashable x \<Longrightarrow> \<forall>x \<in> set s'. py_hashable x"
proof (induction xs arbitrary: s)
  case Nil
  then show ?case by simp
next
  case (Cons x xs)
  from Cons.prems(1) have h: "py_hashable x" and r: "set_of_list (set_add s x) xs = Inr s'"
    by (simp_all split: if_splits)
  from r show ?case by (rule Cons.IH) (rule set_add_hashable[OF h Cons.prems(2)])
qed

lemma py_set_hashable: "py_set v = Inr s \<Longrightarrow> \<forall>x \<in> set s. py_hashable x"
  by (auto simp: py_set_def bnd_eq_Inr dest: set_of_list_hashable)

lemma py_mem_self: "x \<in> set s \<Longrightarrow> py_hashable x \<Longrightarrow> py_mem x s"
  by (auto simp: py_mem_def list_ex_iff intro: py_eq_refl_hashable)

lemma set_diff_self: "\<forall>x \<in> set s. py_hashable x \<Longrightarrow> set_diff s s = []"
  by (auto simp: set_diff_def filter_empty_conv py_mem_self)

lemma set_eq_self: "\<forall>x \<in> set s. py_hashable x \<Longrightarrow> set_eq s s"
  by (auto simp: set_eq_def list_all_iff py_mem_self)

lemma set_discard_hashable:
  "\<forall>x \<in> set s. py_hashable x \<Longrightarrow> \<forall>x \<in> set (set_discard s b). py_hashable x"
  by (simp add: set_discard_def)

lemma for_empty [simp]:
  "problems_for f [] t = Inr t" "warnings_for f [] t = Inr t" "infos_for f [] t = Inr t"
  by (cases t; simp add: problems_for_def warnings_for_def infos_for_def)+

lemma dict_put_keys:
  "py_hashable k \<Longrightarrow> \<forall>kv \<in> set d. py_hashable (fst kv) \<Longrightarrow>
     set (map (\<lambda>kv. hash_key (fst kv)) (dict_put d k v)) =
       insert (hash_key k) (set (map (\<lambda>kv. hash_key (fst kv)) d))"
  by (induction d) (auto simp: py_eq_hashable)

lemma dict_put_inv: "py_hashable k \<Longrightarrow> dict_inv d \<Longrightarrow> dict_inv (dict_put d k v)"
proof (induction d)
  case Nil
  then show ?case by (simp add: dict_inv_def)
next
  case (Cons kv d)
  then have IH: "dict_inv (dict_put d k v)" by (simp add: dict_inv_def)
  from Cons.prems have h: "py_hashable (fst kv)" "\<forall>kv \<in> set d. py_hashable (fst kv)"
    by (simp_all add: dict_inv_def)
  show ?case
  proof (cases "py_eq (fst kv) k")
    case True
    with Cons.prems show ?thesis by (simp add: dict_inv_def)
  next
    case False
    with h Cons.prems(1) have "hash_key (fst kv) \<noteq> hash_key k" by (simp add: py_eq_hashable)
    with False IH Cons.prems h dict_put_keys[OF Cons.prems(1) h(2), of v] show ?thesis
      by (auto simp: dict_inv_def)
  qed
qed

lemma dict_get_inv: "dict_inv d \<Longrightarrow> kv \<in> set d \<Longrightarrow> dict_get d (fst kv) = Some (snd kv)"
proof (induction d)
  case Nil
  then show ?case by simp
next
  case (Cons a d)
  show ?case
  proof (cases "kv = a")
    case True
    with Cons.prems show ?thesis by (simp add: dict_inv_def py_eq_refl_hashable)
  next
    case False
    with Cons.prems have kv: "kv \<in> set d" by simp
    with Cons.prems have "hash_key (fst a) \<noteq> hash_key (fst kv)"
      by (auto simp: dict_inv_def)
    with Cons.prems kv have "\<not> py_eq (fst a) (fst kv)"
      by (simp add: dict_inv_def py_eq_hashable)
    moreover from Cons.prems have "dict_inv d" by (simp add: dict_inv_def)
    ultimately show ?thesis using Cons.IH kv by simp
  qed
qed

lemma dict_inv_keys: "dict_inv d \<Longrightarrow> \<forall>k \<in> set (map fst d). py_hashable k"
  by (auto simp: dict_inv_def)

lemma names_dict_inv: "names_dict cs d = Inr d' \<Longrightarrow> dict_inv d \<Longrightarrow> dict_inv d'"
proof (induction cs arbitrary: d)
  case Nil
  then show ?case by simp
next
  case (Cons c cs)
  from Cons.prems(1)[unfolded names_dict.simps bnd_eq_Inr if_eq_Inr]
  consider "names_dict cs d = Inr d'"
    | name state where "py_hashable name" "names_dict cs (dict_put d name state) = Inr d'"
    by blast
  then show ?case
  proof cases
    case 1
    then show ?thesis using Cons.prems(2) by (rule Cons.IH)
  next
    case 2
    from 2(2) show ?thesis by (rule Cons.IH) (simp add: dict_put_inv 2(1) Cons.prems(2))
  qed
qed

lemma dict_put_values:
  "\<forall>kv \<in> set d. P (snd kv) \<Longrightarrow> P v \<Longrightarrow> \<forall>kv \<in> set (dict_put d k v). P (snd kv)"
  by (induction d) auto

lemma ifaces_dict_inv:
  "ifaces_dict l d = Inr d' \<Longrightarrow> dict_inv d \<Longrightarrow> \<forall>kv \<in> set d. P (snd kv) \<Longrightarrow>
     \<forall>x \<in> set l. P x \<Longrightarrow> dict_inv d' \<and> (\<forall>kv \<in> set d'. P (snd kv))"
proof (induction l arbitrary: d)
  case Nil
  then show ?case by simp
next
  case (Cons iface rest)
  from Cons.prems(1)[unfolded ifaces_dict.simps bnd_eq_Inr if_eq_Inr]
  consider "ifaces_dict rest d = Inr d'"
    | ifname where "py_hashable ifname" "ifaces_dict rest (dict_put d ifname iface) = Inr d'"
    by blast
  then show ?case
  proof cases
    case 1
    then show ?thesis using Cons.prems(2-4) by (intro Cons.IH) auto
  next
    case 2
    from 2(2) show ?thesis
    proof (rule Cons.IH)
      show "dict_inv (dict_put d ifname iface)"
        by (simp add: dict_put_inv 2(1) Cons.prems(2))
      show "\<forall>kv \<in> set (dict_put d ifname iface). P (snd kv)"
        using Cons.prems(3,4) by (intro dict_put_values) auto
      show "\<forall>x \<in> set rest. P x" using Cons.prems(4) by simp
    qed
  qed
qed

lemma inet_addrs_hashable:
  "inet_addrs as s = Inr s' \<Longrightarrow> \<forall>x \<in> set s. py_hashable x \<Longrightarrow> \<forall>x \<in> set s'. py_hashable x"
proof (induction as arbitrary: s)
  case Nil
  then show ?case by simp
next
  case (Cons a as)
  from Cons.prems(1)[unfolded inet_addrs.simps bnd_eq_Inr if_eq_Inr]
  consider "inet_addrs as s = Inr s'"
    | local where "py_hashable local" "inet_addrs as (set_add s local) = Inr s'"
    by blast
  then show ?case
  proof cases
    case 1
    then show ?thesis using Cons.prems(2) by (rule Cons.IH)
  next
    case 2
    from 2(2) show ?thesis
      by (rule Cons.IH) (rule set_add_hashable[OF 2(1) Cons.prems(2)])
  qed
qed

lemma iface_ips_hashable: "iface_ips d = Inr s \<Longrightarrow> \<forall>x \<in> set s. py_hashable x"
  by (auto simp: iface_ips_def bnd_eq_Inr dest!: inet_addrs_hashable)

lemma service_set_hashable: "service_set d k = Inr s \<Longrightarrow> \<forall>x \<in> set s. py_hashable x"
  by (auto simp: service_set_def bnd_eq_Inr dest: py_set_hashable)

lemma compare_services_same:
  assumes "compare_services d d = Inr r"
  shows "r = result ''services'' (0, 0, [])"
proof -
  from assms[unfolded compare_services_def Let_def bnd_eq_Inr]
  obtain a f where a: "service_set d ''running'' = Inr a" and f: "service_set d ''failed'' = Inr f"
    by blast
  have "set_diff a a = []"
    by (rule set_diff_self) (rule service_set_hashable[OF a])
  moreover have "set_diff (set_discard f (JStr bullet)) (set_discard f (JStr bullet)) = []"
    by (rule set_diff_self) (rule set_discard_hashable[OF service_set_hashable[OF f]])
  ultimately show ?thesis using assms a f by (simp add: compare_services_def)
qed

lemma docker_loop_same:
  "\<forall>kv \<in> set xs. dict_get ns (fst kv) = Some (snd kv) \<Longrightarrow> docker_loop xs ns t = t"
  by (induction xs arbitrary: t) simp_all

lemma dict_inv_Nil [simp]: "dict_inv []"
  by (simp add: dict_inv_def)

lemma compare_docker_same:
  assumes "compare_docker d d = Inr r"
  shows "r = result ''docker'' (0, 0, [])"
proof -
  from assms[unfolded compare_docker_def bnd_eq_Inr]
  obtain dk c where dk: "py_get d ''docker'' (JObj []) = Inr dk"
    and c: "py_get dk ''containers'' (JList []) = Inr c"
    by blast
  show ?thesis
  proof (cases "py_truthy c")
    case False
    with assms dk c show ?thesis by (simp add: compare_docker_def)
  next
    case True
    with assms dk c obtain ns where ns: "bnd (py_iter c) (\<lambda>cs. names_dict cs []) = Inr ns"
      by (auto simp: compare_docker_def bnd_eq_Inr)
    then have inv: "dict_inv ns"
      by (auto simp: bnd_eq_Inr dest: names_dict_inv)
    then have "docker_loop ns ns (0, 0, []) = (0, 0, [])"
      by (intro docker_loop_same) (auto simp: dict_get_inv)
    moreover from inv have "set_diff (map fst ns) (map fst ns) = []"
      by (intro set_diff_self dict_inv_keys)
    ultimately show ?thesis using assms dk c ns True by (simp add: compare_docker_def)
  qed
qed

lemma iface_loop_same:
  assumes "\<forall>kv \<in> set es. dict_get ifs (fst kv) = Some (snd kv) \<and> wf_json (snd kv)"
    and "iface_loop es ifs t = Inr t'"
  shows "t' = t"
  using assms
proof (induction es arbitrary: t)
  case Nil
  then show ?case by simp
next
  case (Cons entry rest)
  from Cons.prems(1) have g: "dict_get ifs (fst entry) = Some (snd entry)"
    and wf: "wf_json (snd entry)" by simp_all
  from Cons.prems(2)[unfolded iface_loop.simps g option.case bnd_eq_Inr]
  obtain st ips mac where st: "py_get (snd entry) ''operstate'' (JStr ''UNKNOWN'') = Inr st"
    and ips: "iface_ips (snd entry) = Inr ips"
    and mac: "py_get (snd entry) ''address'' (JStr '''') = Inr mac"
    by blast
  from st wf have 1: "py_eq st st" by (intro py_eq_refl py_get_wf[OF st]) simp_all
  from mac wf have 2: "py_eq mac mac" by (intro py_eq_refl py_get_wf[OF mac]) simp_all
  from ips have 3: "set_eq ips ips" by (intro set_eq_self iface_ips_hashable)
  from Cons.prems(2) g st ips mac 1 2 3 have "iface_loop rest ifs t = Inr t'" by simp
  with Cons.prems(1) show ?case by (intro Cons.IH) simp_all
qed

lemma network_field_wf:
  "network_field d k dflt = Inr v \<Longrightarrow> wf_json d \<Longrightarrow> wf_json dflt \<Longrightarrow> wf_json v"
  by (auto simp: network_field_def bnd_eq_Inr dest!: py_get_wf)

lemma compare_network_interfaces_same:
  assumes "compare_network_interfaces d d = Inr r" and "wf_json d"
  shows "r = result ''network'' (0, 0, [])"
proof -
  from assms(1) obtain l where l: "network_field d ''interfaces'' (JList []) = Inr l"
    by (auto simp: compare_network_interfaces_def bnd_eq_Inr)
  with assms(1) obtain xs where it: "py_iter l = Inr xs"
    by (auto simp: compare_network_interfaces_def bnd_eq_Inr)
  with assms(1) l obtain ifs where ifs: "ifaces_dict xs [] = Inr ifs"
    by (auto simp: compare_network_interfaces_def bnd_eq_Inr)
  with assms(1) l it obtain t1 where t1: "iface_loop ifs ifs (0, 0, []) = Inr t1"
    by (auto simp: compare_network_interfaces_def bnd_eq_Inr)
  with assms(1) l it ifs obtain gw where
    gw: "network_field d ''default_gateway'' (JStr ''none'') = Inr gw"
    by (auto simp: compare_network_interfaces_def bnd_eq_Inr)
  from l assms(2) have "wf_json l" by (rule network_field_wf) simp
  with it have "\<forall>x \<in> set xs. wf_json x" by (auto dest: py_iter_wf)
  with ifs have inv: "dict_inv ifs \<and> (\<forall>kv \<in> set ifs. wf_json (snd kv))"
    by (intro ifaces_dict_inv[OF ifs]) simp_all
  then have "\<forall>kv \<in> set ifs. dict_get ifs (fst kv) = Some (snd kv) \<and> wf_json (snd kv)"
    by (auto simp: dict_get_inv)
  from iface_loop_same[OF this t1] have "t1 = (0, 0, [])" .
  moreover from gw assms(2) have "py_eq gw gw" by (intro py_eq_refl network_field_wf[OF gw]) simp_all
  ultimately show ?thesis using assms(1) l it ifs t1 gw
    by (simp add: compare_network_interfaces_def)
qed

lemma set_diff_Nil [simp]: "set_diff [] b = []"
  by (simp add: set_diff_def)

lemma compare_usb_devices_same:
  assumes "compare_usb_devices d d = Inr r"
  shows "r = result ''usb_devices'' (0, 0, [])"
proof -
  from assms[unfolded compare_usb_devices_def Let_def bnd_eq_Inr]
  obtain v a where v: "py_get d ''usb_devices'' (JList []) = Inr v" and a: "py_set v = Inr a"
    by blast
  from a have "set_diff a a = []"
    by (intro set_diff_self py_set_hashable)
  with assms v a show ?thesis by (simp add: compare_usb_devices_def)
qed

lemma compare_cron_jobs_same:
  assumes "compare_cron_jobs d d = Inr r"
  shows "r = result ''cron_jobs'' (0, 0, [])"
proof -
  from assms[unfolded compare_cron_jobs_def bnd_eq_Inr]
  obtain v a where v: "py_get d ''cron_jobs'' (JList []) = Inr v" and a: "py_set v = Inr a"
    by blast
  from a have "set_diff a a = []"
    by (intro set_diff_self py_set_hashable)
  with assms v a show ?thesis by (simp add: compare_cron_jobs_def)
qed

lemma compare_networkmanager_same:
  assumes "compare_networkmanager d d = Inr r"
  shows "r = result ''networkmanager'' (0, 0, [])"
proof -
  from assms[unfolded compare_networkmanager_def bnd_eq_Inr]
  obtain nm ns where nm: "py_get d ''networkmanager'' (JObj []) = Inr nm"
    and ns: "active_connections nm = Inr ns"
    by blast
  then have "dict_inv ns"
    by (auto simp: active_connections_def bnd_eq_Inr dest: names_dict_inv)
  then have "set_diff (map fst ns) (map fst ns) = []"
    by (intro set_diff_self dict_inv_keys)
  with assms nm ns show ?thesis by (simp add: compare_networkmanager_def)
qed

lemma lost_same: "lost a a k = Inr b \<Longrightarrow> \<not> b"
  by (auto simp: lost_def bnd_eq_Inr split: if_splits)

lemma compare_route_guardian_same:
  assumes "compare_route_guardian d d = Inr r" and "wf_json d"
  shows "r = result ''route_guardian'' (0, 0, [])"
proof -
  from assms(1) obtain rg where rg: "py_get d ''route_guardian'' (JObj []) = Inr rg"
    by (auto simp: compare_route_guardian_def bnd_eq_Inr)
  show ?thesis
  proof (cases "py_truthy rg")
    case False
    with assms(1) rg show ?thesis by (simp add: compare_route_guardian_def)
  next
    case True
    with assms(1) rg obtain b1 where b1: "lost rg rg ''service_active'' = Inr b1"
      by (auto simp: compare_route_guardian_def bnd_eq_Inr)
    with assms(1) rg True obtain gw where
      gw: "py_get rg ''active_gateway'' (JStr ''unknown'') = Inr gw"
      by (auto simp: compare_route_guardian_def bnd_eq_Inr)
    with assms(1) rg True b1 obtain b2 where b2: "lost rg rg ''dsl_route_present'' = Inr b2"
      by (auto simp: compare_route_guardian_def bnd_eq_Inr)
    with assms(1) rg True b1 gw obtain b3 where b3: "lost rg rg ''lte_route_present'' = Inr b3"
      by (auto simp: compare_route_guardian_def bnd_eq_Inr)
    from rg assms(2) have "wf_json rg" by (rule py_get_wf) simp
    with gw have "py_eq gw gw" by (intro py_eq_refl py_get_wf[OF gw]) simp_all
    with assms(1) rg True b1 gw b2 b3 lost_same[OF b1] lost_same[OF b2] lost_same[OF b3]
    show ?thesis by (simp add: compare_route_guardian_def)
  qed
qed

lemma fleet_loop_same: "fleet_loop ds f f t = Inr t' \<Longrightarrow> t' = t"
proof (induction ds arbitrary: t)
  case Nil
  then show ?case by simp
next
  case (Cons device rest)
  from Cons.prems obtain pd where pd: "py_get f device (JObj []) = Inr pd"
    by (auto simp: bnd_eq_Inr)
  with Cons.prems obtain pr where pr: "py_get pd ''reachable'' (JBool False) = Inr pr"
    by (auto simp: bnd_eq_Inr)
  with Cons.prems pd have "fleet_loop rest f f t = Inr t'" by simp
  then show ?case by (rule Cons.IH)
qed

lemma compare_pi_zero_fleet_same:
  assumes "compare_pi_zero_fleet d d = Inr r"
  shows "r = result ''pi_zero_fleet'' (0, 0, [])"
proof -
  from assms obtain f where f: "py_get d ''pi_zero_fleet'' (JObj []) = Inr f"
    by (auto simp: compare_pi_zero_fleet_def bnd_eq_Inr)
  show ?thesis
  proof (cases "py_truthy f")
    case False
    with assms f show ?thesis by (simp add: compare_pi_zero_fleet_def)
  next
    case True
    with assms f obtain t where t: "fleet_loop devices f f (0, 0, []) = Inr t"
      by (auto simp: compare_pi_zero_fleet_def bnd_eq_Inr)
    with assms f True fleet_loop_same[OF t] show ?thesis
      by (simp add: compare_pi_zero_fleet_def)
  qed
qed

lemma neither_lost_same: "neither a a k = Inr False \<Longrightarrow> lost a a k = Inr False"
  by (auto simp: neither_def lost_def bnd_eq_Inr split: if_splits)

lemma compare_wireguard_same:
  assumes "compare_wireguard d d = Inr r" and "wf_json d"
  shows "r = result ''wireguard'' (0, 0, [])"
proof -
  from assms(1) obtain wg where wg: "py_get d ''wireguard'' (JObj []) = Inr wg"
    by (auto simp: compare_wireguard_def bnd_eq_Inr)
  with assms(1) obtain b where b: "neither wg wg ''interface_active'' = Inr b"
    by (auto simp: compare_wireguard_def bnd_eq_Inr)
  show ?thesis
  proof (cases b)
    case True
    with assms(1) wg b show ?thesis by (simp add: compare_wireguard_def)
  next
    case False
    with b have l: "lost wg wg ''interface_active'' = Inr False" by (simp add: neither_lost_same)
    with assms(1) wg b False obtain p where p: "py_get wg ''peers_count'' (JInt 0) = Inr p"
      by (auto simp: compare_wireguard_def bnd_eq_Inr)
    from wg assms(2) have "wf_json wg" by (rule py_get_wf) simp
    with p have "py_eq p p" by (intro py_eq_refl py_get_wf[OF p]) simp_all
    with assms(1) wg b False l p show ?thesis by (simp add: compare_wireguard_def)
  qed
qed

lemma checksum_loop_same:
  assumes "\<forall>kv \<in> set es. map_of kvs (fst kv) = Some (snd kv) \<and> wf_json (snd kv)"
    and "checksum_loop es (JObj kvs) t = Inr t'"
  shows "t' = t"
  using assms
proof (induction es arbitrary: t)
  case Nil
  then show ?case by simp
next
  case (Cons entry rest)
  from Cons.prems(1) have "map_of kvs (fst entry) = Some (snd entry)" "py_eq (snd entry) (snd entry)"
    by (simp_all add: py_eq_refl)
  with Cons.prems(2) have "checksum_loop rest (JObj kvs) t = Inr t'" by simp
  with Cons.prems(1) show ?case by (intro Cons.IH) simp_all
qed

lemma compare_config_checksums_same:
  assumes "compare_config_checksums d d = Inr r" and "wf_json d"
  shows "r = result ''config_checksums'' (0, 0, [])"
proof -
  from assms(1) obtain c where c: "py_get d ''config_checksums'' (JObj []) = Inr c"
    by (auto simp: compare_config_checksums_def bnd_eq_Inr)
  with assms(1) obtain kvs where kvs: "py_items c = Inr kvs"
    by (auto simp: compare_config_checksums_def bnd_eq_Inr)
  then have ck: "c = JObj kvs" by (cases c) simp_all
  with assms(1) c kvs obtain t where t: "checksum_loop kvs (JObj kvs) (0, 0, []) = Inr t"
    by (auto simp: compare_config_checksums_def bnd_eq_Inr)
  from c assms(2) have "wf_json c" by (rule py_get_wf) simp
  with ck have "\<forall>kv \<in> set kvs. map_of kvs (fst kv) = Some (snd kv) \<and> wf_json (snd kv)"
    by (auto simp: wf_items_iff)
  from checksum_loop_same[OF this t] assms(1) c kvs ck t show ?thesis
    by (simp add: compare_config_checksums_def)
qed

lemma only_absolute_tuple [simp]:
  "only_absolute (p, w, c) \<longleftrightarrow> list_all absolute_finding c \<and> p + w = int (length c)"
  by (simp add: only_absolute_def)

lemma only_absolute_step:
  "absolute_finding m \<Longrightarrow> only_absolute t \<Longrightarrow> only_absolute (problem m t)"
  "absolute_finding m \<Longrightarrow> only_absolute t \<Longrightarrow> only_absolute (warning m t)"
  by (cases t; simp)+

lemma absolute_finding_simps [simp]:
  "absolute_finding (Disk_critical x)" "absolute_finding (Cpu_temp_high x)"
  "absolute_finding Hw_under_voltage" "absolute_finding Hw_throttled"
  "absolute_finding Hw_soft_temp" "absolute_finding (Crit_not_active s x)"
  "absolute_finding (Swap_high x)" "absolute_finding (Boot_incomplete x)"
  "absolute_finding (Boot_long n k)"
  by (simp_all add: absolute_finding_def)

lemma only_absolute_result:
  "only_absolute t \<Longrightarrow>
     list_all absolute_finding (changes (result n t)) \<and>
     problems (result n t) + warnings (result n t) = int (length (changes (result n t)))"
  by (cases t) simp

lemma check_disk_same:
  assumes "check_disk a a t = Inr t'"
  shows "t' = t \<or> t' = problem (Disk_critical a) t"
proof -
  have "py_gt a lim \<noteq> Inr True" if "py_add a 10 = Inr lim" for lim
    using that by (cases a) (auto simp: py_add_def py_gt_def bnd_eq_Inr)
  with check_disk_cases[OF assms] show ?thesis by auto
qed

lemma compare_system_same:
  assumes "compare_system d d = Inr r" and "wf_json d"
  shows "\<exists>t. r = result ''system'' t \<and> only_absolute t"
proof -
  from assms(1) obtain sys where sys: "py_get d ''system'' (JObj []) = Inr sys"
    by (auto simp: compare_system_def bnd_eq_Inr)
  with assms(1) obtain k where k: "py_get sys ''kernel'' JNull = Inr k"
    by (auto simp: compare_system_def bnd_eq_Inr)
  from sys assms(2) have "wf_json sys" by (rule py_get_wf) simp
  with k have kk: "py_eq k k" by (intro py_eq_refl py_get_wf[OF k]) simp_all
  from assms(1) sys k kk obtain dk where dk: "py_get sys ''disk_usage_percent'' (JInt 0) = Inr dk"
    by (auto simp: compare_system_def bnd_eq_Inr)
  with assms(1) sys k kk obtain t2 where t2: "check_disk dk dk (0, 0, []) = Inr t2"
    by (auto simp: compare_system_def bnd_eq_Inr)
  with assms(1) sys k kk dk obtain tmp where tmp: "cpu_temp sys d = Inr tmp"
    by (auto simp: compare_system_def bnd_eq_Inr)
  with assms(1) sys k kk dk t2 obtain hot where hot: "py_gt tmp (JInt 80) = Inr hot"
    by (auto simp: compare_system_def bnd_eq_Inr)
  from check_disk_same[OF t2] have "only_absolute t2"
    by (auto intro: only_absolute_step)
  then have "only_absolute (if hot then warning (Cpu_temp_high tmp) t2 else t2)"
    by (simp add: only_absolute_step)
  moreover from assms(1) sys k kk dk t2 tmp hot
  have "r = result ''system'' (if hot then warning (Cpu_temp_high tmp) t2 else t2)"
    by (simp add: compare_system_def)
  ultimately show ?thesis by blast
qed

lemma flag_warning_abs:
  "flag_warning d k m t = Inr t' \<Longrightarrow> only_absolute t \<Longrightarrow> absolute_finding m \<Longrightarrow> only_absolute t'"
  by (auto simp: flag_warning_def bnd_eq_Inr only_absolute_step)

lemma compare_hardware_throttling_abs:
  assumes "compare_hardware_throttling pre post = Inr r"
  shows "\<exists>t. r = result ''hardware_throttling'' t \<and> only_absolute t"
proof -
  from assms[unfolded compare_hardware_throttling_def bnd_eq_Inr if_eq_Inr sum.inject]
  consider "r = result ''hardware_throttling'' (0, 0, [])"
    | d t1 t2 t3 where
      "flag_warning d ''under_voltage'' Hw_under_voltage (0, 0, []) = Inr t1"
      "flag_warning d ''currently_throttled'' Hw_throttled t1 = Inr t2"
      "flag_warning d ''soft_temp_limit'' Hw_soft_temp t2 = Inr t3"
      "result ''hardware_throttling'' t3 = r"
    by blast
  then show ?thesis
  proof cases
    case 1
    then show ?thesis by (intro exI[of _ "(0, 0, [])"]) simp
  next
    case 2
    from 2(1) have "only_absolute t1" by (rule flag_warning_abs) simp_all
    with 2(2) have "only_absolute t2" by (rule flag_warning_abs) simp
    with 2(3) have "only_absolute t3" by (rule flag_warning_abs) simp
    with 2(4) show ?thesis by blast
  qed
qed

lemma compare_memory_detail_abs:
  assumes "compare_memory_detail pre post = Inr r"
  shows "\<exists>t. r = result ''memory_detail'' t \<and> only_absolute t"
proof -
  from assms[unfolded compare_memory_detail_def bnd_eq_Inr if_eq_Inr sum.inject]
  obtain high v where
      "result ''memory_detail'' (if high then warning (Swap_high v) (0, 0, []) else (0, 0, [])) = r"
    by blast
  moreover have "only_absolute (if high then warning (Swap_high v) (0, 0, []) else (0, 0, []))"
    by (simp add: only_absolute_step)
  ultimately show ?thesis by blast
qed

lemma validate_boot_info_abs:
  assumes "validate_boot_info int_of_str post = Inr r"
  shows "\<exists>t. r = result ''boot_info'' t \<and> only_absolute t"
proof -
  from assms[unfolded validate_boot_info_def bnd_eq_Inr if_eq_Inr int_case_eq_Inr sum.inject]
  consider "r = result ''boot_info'' (0, 0, [])"
    | c1 v t1 c2 n k where "(if c1 then problem (Boot_incomplete v) (0, 0, []) else (0, 0, [])) = t1"
       "result ''boot_info'' (if c2 then warning (Boot_long n k) t1 else t1) = r"
    | c1 v t1 where "(if c1 then problem (Boot_incomplete v) (0, 0, []) else (0, 0, [])) = t1"
       "result ''boot_info'' t1 = r"
    by blast
  then show ?thesis
  proof cases
    case 1
    then show ?thesis by (intro exI[of _ "(0, 0, [])"]) simp
  next
    case 2
    from 2(1) have "only_absolute t1" by (auto simp: only_absolute_step)
    then have "only_absolute (if c2 then warning (Boot_long n k) t1 else t1)"
      by (simp add: only_absolute_step)
    with 2(2) show ?thesis by blast
  next
    case 3
    from 3(1) have "only_absolute t1" by (auto simp: only_absolute_step)
    with 3(2) show ?thesis by blast
  qed
qed

lemma critical_loop_same:
  assumes "\<forall>kv \<in> set es. map_of kvs (fst kv) = Some (snd kv) \<and> wf_json (snd kv)"
    and "critical_loop es (JObj kvs) t = Inr t'"
    and "only_absolute t"
  shows "only_absolute t'"
  using assms
proof (induction es arbitrary: t)
  case Nil
  then show ?case by simp
next
  case (Cons entry rest)
  from Cons.prems(1) have g: "map_of kvs (fst entry) = Some (snd entry)"
    and wf: "wf_json (snd entry)" by simp_all
  from Cons.prems(2) obtain a where a: "py_get (snd entry) ''active'' JNull = Inr a"
    by (auto simp: bnd_eq_Inr)
  with Cons.prems(2) g obtain rs where rs: "py_get (snd entry) ''restarts'' (JInt 0) = Inr rs"
    by (auto simp: bnd_eq_Inr)
  with Cons.prems(2) g a obtain more where more: "py_gt rs rs = Inr more"
    by (auto simp: bnd_eq_Inr)
  from rs wf have "wf_json rs" by (rule py_get_wf) simp
  with more have "\<not> more" by (auto simp: py_gt_def dest: py_lt_irrefl)
  let ?t1 = "if a = JStr ''active'' then t else problem (Crit_not_active (fst entry) a) t"
  from Cons.prems(2) g a rs more \<open>\<not> more\<close>
  have "critical_loop rest (JObj kvs) ?t1 = Inr t'" by simp
  moreover from Cons.prems(3) have "only_absolute ?t1" by (simp add: only_absolute_step)
  ultimately show ?case using Cons.prems(1) by (intro Cons.IH[of ?t1]) simp_all
qed

lemma compare_critical_services_same:
  assumes "compare_critical_services d d = Inr r" and "wf_json d"
  shows "\<exists>t. r = result ''critical_services'' t \<and> only_absolute t"
proof -
  from assms(1) obtain c where c: "py_get d ''critical_services'' (JObj []) = Inr c"
    by (auto simp: compare_critical_services_def bnd_eq_Inr)
  show ?thesis
  proof (cases "py_truthy c")
    case False
    with assms(1) c show ?thesis
      by (intro exI[of _ "(0, 0, [])"]) (simp add: compare_critical_services_def)
  next
    case True
    with assms(1) c obtain kvs where kvs: "py_items c = Inr kvs"
      by (auto simp: compare_critical_services_def bnd_eq_Inr)
    then have ck: "c = JObj kvs" by (cases c) simp_all
    with assms(1) c kvs True obtain t where t: "critical_loop kvs (JObj kvs) (0, 0, []) = Inr t"
      by (auto simp: compare_critical_services_def bnd_eq_Inr)
    from c assms(2) have "wf_json c" by (rule py_get_wf) simp
    with ck have "\<forall>kv \<in> set kvs. map_of kvs (fst kv) = Some (snd kv) \<and> wf_json (snd kv)"
      by (auto simp: wf_items_iff)
    from critical_loop_same[OF this t] have "only_absolute t" by simp
    moreover from assms(1) c kvs ck t True have "r = result ''critical_services'' t"
      by (simp add: compare_critical_services_def)
    ultimately show ?thesis by blast
  qed
qed

lemma same_sections_comparators:
  assumes "same_sections pre post"
  shows "compare_system pre post = compare_system post post"
    and "compare_services pre post = compare_services post post"
    and "compare_docker pre post = compare_docker post post"
    and "compare_network_interfaces pre post = compare_network_interfaces post post"
    and "compare_usb_devices pre post = compare_usb_devices post post"
    and "compare_route_guardian pre post = compare_route_guardian post post"
    and "compare_pi_zero_fleet pre post = compare_pi_zero_fleet post post"
    and "compare_networkmanager pre post = compare_networkmanager post post"
    and "compare_wireguard pre post = compare_wireguard post post"
    and "compare_critical_services pre post = compare_critical_services post post"
    and "compare_config_checksums pre post = compare_config_checksums post post"
    and "compare_cron_jobs pre post = compare_cron_jobs post post"
  by (simp_all add: compare_system_def compare_services_def service_set_def compare_docker_def
      compare_network_interfaces_def network_field_def compare_usb_devices_def
      compare_route_guardian_def compare_pi_zero_fleet_def compare_networkmanager_def
      compare_wireguard_def compare_critical_services_def compare_config_checksums_def
      compare_cron_jobs_def same_get[OF assms] section_keys_def)

lemma zero_result:
  "r = result n (0, 0, []) \<Longrightarrow> problems r = 0 \<and> warnings r = 0 \<and> changes r = []"
  by simp

lemma absolute_result:
  "\<exists>t. r = result n t \<and> only_absolute t \<Longrightarrow>
     list_all absolute_finding (changes r) \<and>
     problems r + warnings r = int (length (changes r))"
  by (auto simp: only_absolute_result)




section \<open>Documents of the expected shape\<close>

text \<open>
  No comparator checks the type of what it reads, and only \<^verbatim>\<open>int(duration)\<close> stands
  in a \<^verbatim>\<open>try\<close>. What follows shows that on documents of the shape \<open>wt_doc\<close> every
  operation of every comparator is defined.
\<close>

lemma field_get:
  "field d k P \<Longrightarrow> P dflt \<Longrightarrow> \<exists>v. py_get d k dflt = Inr v \<and> P v"
  by (cases d) (auto split: option.splits)

lemma field_get_any: "field d k P \<Longrightarrow> \<exists>v. py_get d k' dflt = Inr v"
  by (cases d) auto

lemma is_dict_get: "is_dict d \<Longrightarrow> \<exists>v. py_get d k dflt = Inr v"
  by (cases d) auto

lemma is_dict_field [simp]: "field (JObj []) k P"
  by simp

lemma is_int_E: "is_int v \<Longrightarrow> \<exists>i. v = JInt i"
  by (cases v) auto

lemma list_of_str_E: "list_of is_str v \<Longrightarrow> \<exists>xs. v = JList (map JStr xs)"
proof (cases v)
  case (JList ys)
  assume "list_of is_str v"
  with JList have "list_all is_str ys" by simp
  then have "\<exists>xs. ys = map JStr xs"
  proof (induction ys)
    case Nil
    then show ?case by simp
  next
    case (Cons y ys)
    then obtain xs s where "ys = map JStr xs" "y = JStr s" by (cases y) auto
    then show ?case by (intro exI[of _ "s # xs"]) simp
  qed
  with JList show ?thesis by simp
qed auto

lemma check_disk_total: "is_int a \<Longrightarrow> is_int b \<Longrightarrow> \<exists>t'. check_disk a b t = Inr t'"
  by (cases t) (auto dest!: is_int_E simp: check_disk_def py_gt_def py_add_def)

lemma cpu_temp_total:
  assumes "field post_sys ''cpu_temp'' is_int"
    and "field post ''custom'' (\<lambda>c. field c ''cpu_temp_celsius'' is_int)"
  shows "\<exists>v. cpu_temp post_sys post = Inr v \<and> is_int v"
proof -
  from field_get[OF assms(1), of "JInt 0"] obtain t where
    t: "py_get post_sys ''cpu_temp'' (JInt 0) = Inr t" "is_int t" by auto
  from field_get[OF assms(2), of "JObj []"] obtain c where
    c: "py_get post ''custom'' (JObj []) = Inr c" "field c ''cpu_temp_celsius'' is_int" by auto
  from field_get[OF c(2), of "JInt 0"] obtain u where
    u: "py_get c ''cpu_temp_celsius'' (JInt 0) = Inr u" "is_int u" by auto
  from t c u show ?thesis by (simp add: cpu_temp_def)
qed

lemma compare_system_total:
  assumes "wt_doc pre" and "wt_doc post"
  shows "\<exists>r. compare_system pre post = Inr r"
proof -
  from assms have f:
    "field pre ''system'' (\<lambda>s. field s ''disk_usage_percent'' is_int \<and>
                                 field s ''cpu_temp'' is_int)"
    "field post ''system'' (\<lambda>s. field s ''disk_usage_percent'' is_int \<and>
                                  field s ''cpu_temp'' is_int)"
    "field post ''custom'' (\<lambda>c. field c ''cpu_temp_celsius'' is_int)"
    by (simp_all add: wt_doc_def)
  from field_get[OF f(1), of "JObj []"] obtain a where
    a: "py_get pre ''system'' (JObj []) = Inr a" "field a ''disk_usage_percent'' is_int" by auto
  from field_get[OF f(2), of "JObj []"] obtain b where
    b: "py_get post ''system'' (JObj []) = Inr b" "field b ''disk_usage_percent'' is_int"
       "field b ''cpu_temp'' is_int" by auto
  from field_get_any[OF a(2)] obtain ka where ka: "py_get a ''kernel'' JNull = Inr ka" by blast
  from field_get_any[OF b(2)] obtain kb where kb: "py_get b ''kernel'' JNull = Inr kb" by blast
  from field_get[OF a(2), of "JInt 0"] obtain da where
    da: "py_get a ''disk_usage_percent'' (JInt 0) = Inr da" "is_int da" by auto
  from field_get[OF b(2), of "JInt 0"] obtain db where
    db: "py_get b ''disk_usage_percent'' (JInt 0) = Inr db" "is_int db" by auto
  from check_disk_total[OF da(2) db(2)] obtain t2 where
    t2: "check_disk da db (if py_eq ka kb then (0, 0, [])
           else info (Kernel_changed ka kb) (0, 0, [])) = Inr t2" by blast
  from cpu_temp_total[OF b(3) f(3)] obtain tmp where
    tmp: "cpu_temp b post = Inr tmp" "is_int tmp" by blast
  from tmp(2) obtain hot where hot: "py_gt tmp (JInt 80) = Inr hot"
    by (auto dest!: is_int_E simp: py_gt_def)
  from a(1) b(1) ka kb da(1) db(1) t2 tmp(1) hot show ?thesis
    by (simp add: compare_system_def del: tally_simps)
qed

lemma for_total:
  assumes "distinct ys"
  shows "\<exists>t'. problems_for f (map JStr ys) t = Inr t'"
    and "\<exists>t'. warnings_for f (map JStr ys) t = Inr t'"
    and "\<exists>t'. infos_for f (map JStr ys) t = Inr t'"
  using for_str[OF assms] by (cases t; simp)+

lemma str_set_total:
  assumes "field d k (list_of is_str)"
  shows "\<exists>ys. bnd (py_get d k (JList [])) py_set = Inr (map JStr ys) \<and> distinct ys"
proof -
  from field_get[OF assms, of "JList []"] obtain v where
    v: "py_get d k (JList []) = Inr v" "list_of is_str v" by auto
  from list_of_str_E[OF v(2)] obtain xs where "v = JList (map JStr xs)" by blast
  with v(1) py_set_str[of xs] show ?thesis by auto
qed

lemma service_set_total:
  assumes "field d ''services'' (\<lambda>s. field s ''running'' (list_of is_str) \<and>
                                       field s ''failed'' (list_of is_str))"
    and "k = ''running'' \<or> k = ''failed''"
  shows "\<exists>ys. service_set d k = Inr (map JStr ys) \<and> distinct ys"
proof -
  from field_get[OF assms(1), of "JObj []"] obtain s where
    s: "py_get d ''services'' (JObj []) = Inr s" "field s ''running'' (list_of is_str)"
       "field s ''failed'' (list_of is_str)" by auto
  from assms(2) s(2,3) have "field s k (list_of is_str)" by auto
  from str_set_total[OF this] s(1) show ?thesis by (simp add: service_set_def)
qed

lemma compare_services_total:
  assumes "wt_doc pre" and "wt_doc post"
  shows "\<exists>r. compare_services pre post = Inr r"
proof -
  from assms have f: "field pre ''services'' (\<lambda>s. field s ''running'' (list_of is_str) \<and>
                                       field s ''failed'' (list_of is_str))"
    "field post ''services'' (\<lambda>s. field s ''running'' (list_of is_str) \<and>
                                       field s ''failed'' (list_of is_str))"
    by (simp_all add: wt_doc_def)
  from service_set_total[OF f(1), of "''running''"] obtain pr where
    pr: "service_set pre ''running'' = Inr (map JStr pr)" "distinct pr" by auto
  from service_set_total[OF f(2), of "''running''"] obtain qr where
    qr: "service_set post ''running'' = Inr (map JStr qr)" "distinct qr" by auto
  from service_set_total[OF f(1), of "''failed''"] obtain pf where
    pf: "service_set pre ''failed'' = Inr (map JStr pf)" "distinct pf" by auto
  from service_set_total[OF f(2), of "''failed''"] obtain qf where
    qf: "service_set post ''failed'' = Inr (map JStr qf)" "distinct qf" by auto
  have d: "distinct (filter (\<lambda>x. x \<notin> set qr) pr)" "distinct (filter (\<lambda>x. x \<notin> set pr) qr)"
    "distinct (filter (\<lambda>x. x \<notin> set (filter (\<lambda>y. y \<noteq> bullet) pf)) (filter (\<lambda>y. y \<noteq> bullet) qf))"
    using pr qr qf by simp_all
  show ?thesis
    unfolding compare_services_def Let_def pr(1) qr(1) pf(1) qf(1) bnd_Inr
      set_discard_str set_diff_str
      for_str(1)[OF d(1)] for_str(3)[OF d(2)] for_str(1)[OF d(3)]
    by simp
qed

lemma critical_usb_str:
  "critical_usb (map JStr xs) =
     Inr (map JStr (filter (\<lambda>d. is_substring ''RTL8153'' d \<or> is_substring ''RTL8156'' d) xs))"
  by (induction xs) simp_all

lemma compare_usb_devices_total:
  assumes "wt_doc pre" and "wt_doc post"
  shows "\<exists>r. compare_usb_devices pre post = Inr r"
proof -
  from assms have f: "field pre ''usb_devices'' (list_of is_str)"
    "field post ''usb_devices'' (list_of is_str)"
    by (simp_all add: wt_doc_def)
  from str_set_total[OF f(1)] obtain a where
    a: "bnd (py_get pre ''usb_devices'' (JList [])) py_set = Inr (map JStr a)" "distinct a" by auto
  from str_set_total[OF f(2)] obtain b where
    b: "bnd (py_get post ''usb_devices'' (JList [])) py_set = Inr (map JStr b)" "distinct b" by auto
  let ?removed = "filter (\<lambda>x. x \<notin> set b) a"
  let ?crit = "filter (\<lambda>d. is_substring ''RTL8153'' d \<or> is_substring ''RTL8156'' d) ?removed"
  have d: "distinct (filter (\<lambda>x. x \<notin> set ?crit) ?removed)" "distinct (filter (\<lambda>x. x \<notin> set a) b)"
    using a b by simp_all
  show ?thesis
    unfolding compare_usb_devices_def Let_def a(1) b(1) bnd_Inr set_diff_str critical_usb_str
      for_str(2)[OF d(1)] for_str(3)[OF d(2)]
    by simp
qed

lemma compare_cron_jobs_total:
  assumes "wt_doc pre" and "wt_doc post"
  shows "\<exists>r. compare_cron_jobs pre post = Inr r"
proof -
  from assms have f: "field pre ''cron_jobs'' (list_of is_str)"
    "field post ''cron_jobs'' (list_of is_str)"
    by (simp_all add: wt_doc_def)
  from str_set_total[OF f(1)] obtain a where
    a: "bnd (py_get pre ''cron_jobs'' (JList [])) py_set = Inr (map JStr a)" "distinct a" by auto
  from str_set_total[OF f(2)] obtain b where
    b: "bnd (py_get post ''cron_jobs'' (JList [])) py_set = Inr (map JStr b)" "distinct b" by auto
  have d: "distinct (filter (\<lambda>x. x \<notin> set b) a)" "distinct (filter (\<lambda>x. x \<notin> set a) b)"
    using a b by simp_all
  show ?thesis
    unfolding compare_cron_jobs_def a(1) b(1) bnd_Inr set_diff_str
      for_str(2)[OF d(1)] for_str(3)[OF d(2)]
    by simp
qed

lemma is_str_E: "is_str v \<Longrightarrow> \<exists>s. v = JStr s"
  by (cases v) auto

lemma is_dict_E: "is_dict v \<Longrightarrow> \<exists>kvs. v = JObj kvs"
  by (cases v) auto

lemma field_E: "field d k P \<Longrightarrow> \<exists>kvs. d = JObj kvs"
  by (cases d) auto

lemma py_insort_strs:
  "is_str x \<Longrightarrow> list_all is_str ys \<Longrightarrow> \<exists>r. py_insort x ys = Inr r \<and> list_all is_str r"
proof (induction ys)
  case Nil
  then show ?case by simp
next
  case (Cons y ys)
  from Cons.prems obtain s u where su: "x = JStr s" "y = JStr u"
    by (auto dest!: is_str_E)
  from Cons obtain r where r: "py_insort x ys = Inr r" "list_all is_str r" by auto
  with su Cons.prems show ?case by (cases "s < u") simp_all
qed

lemma py_sorted_strs:
  "list_all is_str xs \<Longrightarrow> \<exists>r. py_sorted xs = Inr r \<and> list_all is_str r"
proof (induction xs)
  case Nil
  then show ?case by simp
next
  case (Cons x xs)
  then obtain r where r: "py_sorted xs = Inr r" "list_all is_str r" by auto
  from Cons.prems have "is_str x" by simp
  from py_insort_strs[OF this r(2)] r(1) show ?case by simp
qed

lemma for_strs:
  assumes "list_all is_str s"
  shows "\<exists>t'. problems_for f s t = Inr t'"
    and "\<exists>t'. warnings_for f s t = Inr t'"
    and "\<exists>t'. infos_for f s t = Inr t'"
  using py_sorted_strs[OF assms]
  by (cases t; auto simp: problems_for_def warnings_for_def infos_for_def)+

lemma set_diff_strs: "list_all is_str a \<Longrightarrow> list_all is_str (set_diff a b)"
  by (simp add: set_diff_def list_all_iff)

lemma dict_put_strs:
  "list_all is_str (map fst d) \<Longrightarrow> is_str k \<Longrightarrow> list_all is_str (map fst (dict_put d k v))"
  by (induction d) simp_all

lemma names_dict_total:
  "list_all named cs \<Longrightarrow> list_all is_str (map fst d) \<Longrightarrow>
     \<exists>d'. names_dict cs d = Inr d' \<and> list_all is_str (map fst d')"
proof (induction cs arbitrary: d)
  case Nil
  then show ?case by simp
next
  case (Cons c cs)
  from Cons.prems(1) have c: "field c ''name'' is_str" and cs: "list_all named cs"
    by (simp_all add: named_def list_all_iff)
  from field_E[OF c] obtain kvs where kvs: "c = JObj kvs" by blast
  obtain name where name: "py_get c ''name'' JNull = Inr name" "py_truthy name \<longrightarrow> is_str name"
    using c kvs by (auto split: option.splits)
  obtain state where state: "py_get c ''state'' JNull = Inr state"
    using kvs by simp
  show ?case
  proof (cases "py_truthy name")
    case True
    with name have s: "is_str name" by simp
    then have h: "py_hashable name" by (auto dest!: is_str_E)
    from Cons.IH[OF cs dict_put_strs[OF Cons.prems(2) s, of state]] name(1) state True h
    show ?thesis by simp
  next
    case False
    with Cons.IH[OF cs Cons.prems(2)] name(1) show ?thesis by simp
  qed
qed

lemma names_list_total:
  assumes "field k key (list_of named)"
  shows "\<exists>v. py_get k key (JList []) = Inr v \<and>
             (\<exists>d. bnd (py_iter v) (\<lambda>cs. names_dict cs []) = Inr d \<and> list_all is_str (map fst d))"
proof -
  from field_get[OF assms, of "JList []"] obtain v where
    v: "py_get k key (JList []) = Inr v" "list_of named v" by auto
  from v(2) obtain cs where cs: "v = JList cs" "list_all named cs" by (cases v) auto
  from names_dict_total[OF cs(2), of "[]"] v(1) cs(1) show ?thesis by simp
qed

lemma compare_docker_total:
  assumes "wt_doc pre" and "wt_doc post"
  shows "\<exists>r. compare_docker pre post = Inr r"
proof -
  from assms have f: "field pre ''docker'' (\<lambda>k. field k ''containers'' (list_of named))"
    "field post ''docker'' (\<lambda>k. field k ''containers'' (list_of named))"
    by (simp_all add: wt_doc_def)
  from field_get[OF f(1), of "JObj []"] obtain a where
    a: "py_get pre ''docker'' (JObj []) = Inr a" "field a ''containers'' (list_of named)" by auto
  from field_get[OF f(2), of "JObj []"] obtain b where
    b: "py_get post ''docker'' (JObj []) = Inr b" "field b ''containers'' (list_of named)" by auto
  from names_list_total[OF a(2)] obtain ca na where
    ca: "py_get a ''containers'' (JList []) = Inr ca"
        "bnd (py_iter ca) (\<lambda>cs. names_dict cs []) = Inr na" "list_all is_str (map fst na)"
    by blast
  from names_list_total[OF b(2)] obtain cb nb where
    cb: "py_get b ''containers'' (JList []) = Inr cb"
        "bnd (py_iter cb) (\<lambda>cs. names_dict cs []) = Inr nb" "list_all is_str (map fst nb)"
    by blast
  from for_strs(3)[OF set_diff_strs[OF cb(3), of "map fst na"], of Container_new
      "docker_loop na nb (0, 0, [])"]
  obtain t where t: "infos_for Container_new (set_diff (map fst nb) (map fst na))
      (docker_loop na nb (0, 0, [])) = Inr t" by blast
  from a(1) b(1) ca(1,2) cb(1,2) t show ?thesis
    by (simp add: compare_docker_def del: tally_simps)
qed

lemma active_connections_total:
  assumes "field nm ''active_connections'' (list_of named)"
  shows "\<exists>d. active_connections nm = Inr d \<and> list_all is_str (map fst d)"
  using names_list_total[OF assms] by (auto simp: active_connections_def)

lemma compare_networkmanager_total:
  assumes "wt_doc pre" and "wt_doc post"
  shows "\<exists>r. compare_networkmanager pre post = Inr r"
proof -
  from assms have f:
    "field pre ''networkmanager'' (\<lambda>n. field n ''active_connections'' (list_of named))"
    "field post ''networkmanager'' (\<lambda>n. field n ''active_connections'' (list_of named))"
    by (simp_all add: wt_doc_def)
  from field_get[OF f(1), of "JObj []"] obtain a where
    a: "py_get pre ''networkmanager'' (JObj []) = Inr a"
       "field a ''active_connections'' (list_of named)" by auto
  from field_get[OF f(2), of "JObj []"] obtain b where
    b: "py_get post ''networkmanager'' (JObj []) = Inr b"
       "field b ''active_connections'' (list_of named)" by auto
  from active_connections_total[OF a(2)] obtain na where
    na: "active_connections a = Inr na" "list_all is_str (map fst na)" by blast
  from active_connections_total[OF b(2)] obtain nb where
    nb: "active_connections b = Inr nb" "list_all is_str (map fst nb)" by blast
  from for_strs(2)[OF set_diff_strs[OF na(2), of "map fst nb"], of Nm_deactivated "(0, 0, [])"]
  obtain t1 where t1: "warnings_for Nm_deactivated (set_diff (map fst na) (map fst nb))
      (0, 0, []) = Inr t1" by blast
  from for_strs(3)[OF set_diff_strs[OF nb(2), of "map fst na"], of Nm_activated t1]
  obtain t2 where t2: "infos_for Nm_activated (set_diff (map fst nb) (map fst na)) t1 = Inr t2"
    by blast
  from a(1) b(1) na(1) nb(1) t1 t2 show ?thesis
    by (simp add: compare_networkmanager_def del: tally_simps)
qed

lemma inet_addrs_total:
  "list_all (\<lambda>a. field a ''local'' py_hashable) as \<Longrightarrow> \<exists>s'. inet_addrs as s = Inr s'"
proof (induction as arbitrary: s)
  case Nil
  then show ?case by simp
next
  case (Cons a as)
  from Cons.prems have a: "field a ''local'' py_hashable"
    and as: "list_all (\<lambda>a. field a ''local'' py_hashable) as" by simp_all
  from field_get_any[OF a] obtain family where
    family: "py_get a ''family'' JNull = Inr family" by blast
  from field_get[OF a, of JNull] obtain l where
    l: "py_get a ''local'' JNull = Inr l" "py_hashable l" by auto
  from Cons.IH[OF as] family l show ?case by simp
qed

lemma iface_ips_total:
  assumes "wt_iface i"
  shows "\<exists>s. iface_ips i = Inr s"
proof -
  from assms have f: "field i ''addr_info'' (list_of (\<lambda>a. field a ''local'' py_hashable))"
    by (simp add: wt_iface_def)
  from field_get[OF f, of "JList []"] obtain v where
    v: "py_get i ''addr_info'' (JList []) = Inr v"
       "list_of (\<lambda>a. field a ''local'' py_hashable) v" by auto
  from v(2) obtain as where as: "v = JList as" "list_all (\<lambda>a. field a ''local'' py_hashable) as"
    by (cases v) auto
  from inet_addrs_total[OF as(2), of "[]"] v(1) as(1) show ?thesis
    by (simp add: iface_ips_def)
qed

lemma ifaces_dict_total:
  "list_all wt_iface l \<Longrightarrow> \<forall>kv \<in> set d. wt_iface (snd kv) \<Longrightarrow>
     \<exists>d'. ifaces_dict l d = Inr d' \<and> (\<forall>kv \<in> set d'. wt_iface (snd kv))"
proof (induction l arbitrary: d)
  case Nil
  then show ?case by simp
next
  case (Cons i l)
  from Cons.prems(1) have i: "wt_iface i" and l: "list_all wt_iface l" by simp_all
  from i have f: "field i ''ifname'' is_str" by (simp add: wt_iface_def)
  from field_E[OF f] obtain kvs where kvs: "i = JObj kvs" by blast
  obtain name where name: "py_get i ''ifname'' JNull = Inr name" "py_truthy name \<longrightarrow> is_str name"
    using f kvs by (auto split: option.splits)
  show ?case
  proof (cases "py_truthy name")
    case True
    with name have "is_str name" by simp
    then have h: "py_hashable name" by (auto dest!: is_str_E)
    have "\<forall>kv \<in> set (dict_put d name i). wt_iface (snd kv)"
      using Cons.prems(2) i by (rule dict_put_values)
    from Cons.IH[OF l this] name(1) True h show ?thesis by simp
  next
    case False
    with Cons.IH[OF l Cons.prems(2)] name(1) show ?thesis by simp
  qed
qed

lemma dict_get_in: "dict_get d k = Some v \<Longrightarrow> \<exists>kv \<in> set d. snd kv = v"
  by (induction d) (auto split: if_splits)

lemma wt_iface_get: "wt_iface i \<Longrightarrow> \<exists>v. py_get i k dflt = Inr v"
  by (auto simp: wt_iface_def dest: field_get_any)

lemma iface_loop_total:
  "\<forall>kv \<in> set xs. wt_iface (snd kv) \<Longrightarrow> \<forall>kv \<in> set ps. wt_iface (snd kv) \<Longrightarrow>
     \<exists>t'. iface_loop xs ps t = Inr t'"
proof (induction xs arbitrary: t)
  case Nil
  show ?case by (cases t) simp
next
  case (Cons e xs)
  from Cons.prems(1) have e: "wt_iface (snd e)" and xs: "\<forall>kv \<in> set xs. wt_iface (snd kv)"
    by simp_all
  note IH = Cons.IH[OF xs Cons.prems(2)]
  show ?case
  proof (cases "dict_get ps (fst e)")
    case None
    with IH show ?thesis by simp
  next
    case (Some p)
    from dict_get_in[OF Some] Cons.prems(2) have p: "wt_iface p" by auto
    from wt_iface_get[OF e] obtain s1 where
      s1: "py_get (snd e) ''operstate'' (JStr ''UNKNOWN'') = Inr s1" by blast
    from wt_iface_get[OF p] obtain s2 where
      s2: "py_get p ''operstate'' (JStr ''UNKNOWN'') = Inr s2" by blast
    from wt_iface_get[OF e] obtain m1 where
      m1: "py_get (snd e) ''address'' (JStr '''') = Inr m1" by blast
    from wt_iface_get[OF p] obtain m2 where
      m2: "py_get p ''address'' (JStr '''') = Inr m2" by blast
    from iface_ips_total[OF e] obtain i1 where i1: "iface_ips (snd e) = Inr i1" by blast
    from iface_ips_total[OF p] obtain i2 where i2: "iface_ips p = Inr i2" by blast
    from Some s1 s2 m1 m2 i1 i2 IH show ?thesis by (simp del: tally_simps)
  qed
qed

lemma compare_network_interfaces_total:
  assumes "wt_doc pre" and "wt_doc post"
  shows "\<exists>r. compare_network_interfaces pre post = Inr r"
proof -
  from assms have f: "field pre ''network'' (\<lambda>n. field n ''interfaces'' (list_of wt_iface))"
    "field post ''network'' (\<lambda>n. field n ''interfaces'' (list_of wt_iface))"
    by (simp_all add: wt_doc_def)
  from field_get[OF f(1), of "JObj []"] obtain a where
    a: "py_get pre ''network'' (JObj []) = Inr a" "field a ''interfaces'' (list_of wt_iface)"
    by auto
  from field_get[OF f(2), of "JObj []"] obtain b where
    b: "py_get post ''network'' (JObj []) = Inr b" "field b ''interfaces'' (list_of wt_iface)"
    by auto
  from field_get[OF a(2), of "JList []"] obtain la where
    la: "py_get a ''interfaces'' (JList []) = Inr la" "list_of wt_iface la" by auto
  from field_get[OF b(2), of "JList []"] obtain lb where
    lb: "py_get b ''interfaces'' (JList []) = Inr lb" "list_of wt_iface lb" by auto
  from la(2) obtain xa where xa: "la = JList xa" "list_all wt_iface xa" by (cases la) auto
  from lb(2) obtain xb where xb: "lb = JList xb" "list_all wt_iface xb" by (cases lb) auto
  from ifaces_dict_total[OF xa(2), of "[]"] obtain da where
    da: "ifaces_dict xa [] = Inr da" "\<forall>kv \<in> set da. wt_iface (snd kv)" by auto
  from ifaces_dict_total[OF xb(2), of "[]"] obtain db where
    db: "ifaces_dict xb [] = Inr db" "\<forall>kv \<in> set db. wt_iface (snd kv)" by auto
  from iface_loop_total[OF da(2) db(2)] obtain t1 where
    t1: "iface_loop da db (0, 0, []) = Inr t1" by blast
  from field_get_any[OF a(2)] obtain ga where
    ga: "py_get a ''default_gateway'' (JStr ''none'') = Inr ga" by blast
  from field_get_any[OF b(2)] obtain gb where
    gb: "py_get b ''default_gateway'' (JStr ''none'') = Inr gb" by blast
  from a(1) b(1) la(1) lb(1) xa(1) xb(1) da(1) db(1) t1 ga gb show ?thesis
    by (simp add: compare_network_interfaces_def network_field_def del: tally_simps)
qed

lemma lost_total: "is_dict a \<Longrightarrow> is_dict b \<Longrightarrow> \<exists>v. lost a b k = Inr v"
  by (auto dest!: is_dict_E simp: lost_def)

lemma neither_total: "is_dict a \<Longrightarrow> is_dict b \<Longrightarrow> \<exists>v. neither a b k = Inr v"
  by (auto dest!: is_dict_E simp: neither_def)

lemma compare_route_guardian_total:
  assumes "wt_doc pre" and "wt_doc post"
  shows "\<exists>r. compare_route_guardian pre post = Inr r"
proof -
  from assms have f: "field pre ''route_guardian'' is_dict" "field post ''route_guardian'' is_dict"
    by (simp_all add: wt_doc_def)
  from field_get[OF f(1), of "JObj []"] obtain a where
    a: "py_get pre ''route_guardian'' (JObj []) = Inr a" "is_dict a" by auto
  from field_get[OF f(2), of "JObj []"] obtain b where
    b: "py_get post ''route_guardian'' (JObj []) = Inr b" "is_dict b" by auto
  from lost_total[OF a(2) b(2)] obtain l1 where l1: "lost a b ''service_active'' = Inr l1"
    by blast
  from lost_total[OF a(2) b(2)] obtain l2 where l2: "lost a b ''dsl_route_present'' = Inr l2"
    by blast
  from lost_total[OF a(2) b(2)] obtain l3 where l3: "lost a b ''lte_route_present'' = Inr l3"
    by blast
  from is_dict_get[OF a(2)] obtain ga where
    ga: "py_get a ''active_gateway'' (JStr ''unknown'') = Inr ga" by blast
  from is_dict_get[OF b(2)] obtain gb where
    gb: "py_get b ''active_gateway'' (JStr ''unknown'') = Inr gb" by blast
  from a(1) b(1) l1 l2 l3 ga gb show ?thesis
    by (simp add: compare_route_guardian_def del: tally_simps)
qed

lemma fleet_loop_total:
  "list_all (\<lambda>device. field a device is_dict) ds \<Longrightarrow>
   list_all (\<lambda>device. field b device is_dict) ds \<Longrightarrow>
     \<exists>t'. fleet_loop ds a b t = Inr t'"
proof (induction ds arbitrary: t)
  case Nil
  show ?case by (cases t) simp
next
  case (Cons d ds)
  from Cons.prems have fa: "field a d is_dict" and fb: "field b d is_dict"
    and ra: "list_all (\<lambda>device. field a device is_dict) ds"
    and rb: "list_all (\<lambda>device. field b device is_dict) ds" by simp_all
  note IH = Cons.IH[OF ra rb]
  from field_get[OF fa, of "JObj []"] obtain x where
    x: "py_get a d (JObj []) = Inr x" "is_dict x" by auto
  from field_get[OF fb, of "JObj []"] obtain y where
    y: "py_get b d (JObj []) = Inr y" "is_dict y" by auto
  from is_dict_get[OF x(2)] obtain rx where
    rx: "py_get x ''reachable'' (JBool False) = Inr rx" by blast
  from is_dict_get[OF y(2)] obtain ry where
    ry: "py_get y ''reachable'' (JBool False) = Inr ry" by blast
  from is_dict_get[OF y(2)] obtain ip where
    ip: "py_get y ''ip'' (JStr ''unknown'') = Inr ip" by blast
  from x(1) y(1) rx ry ip IH show ?case by (simp del: tally_simps)
qed

lemma compare_pi_zero_fleet_total:
  assumes "wt_doc pre" and "wt_doc post"
  shows "\<exists>r. compare_pi_zero_fleet pre post = Inr r"
proof -
  from assms have f:
    "field pre ''pi_zero_fleet'' (\<lambda>f. list_all (\<lambda>device. field f device is_dict) devices)"
    "field post ''pi_zero_fleet'' (\<lambda>f. list_all (\<lambda>device. field f device is_dict) devices)"
    by (simp_all add: wt_doc_def)
  have e: "list_all (\<lambda>device. field (JObj []) device is_dict) devices"
    by (simp add: list_all_iff)
  from field_get[OF f(1), of "JObj []"] e obtain a where
    a: "py_get pre ''pi_zero_fleet'' (JObj []) = Inr a"
       "list_all (\<lambda>device. field a device is_dict) devices" by auto
  from field_get[OF f(2), of "JObj []"] e obtain b where
    b: "py_get post ''pi_zero_fleet'' (JObj []) = Inr b"
       "list_all (\<lambda>device. field b device is_dict) devices" by auto
  from fleet_loop_total[OF a(2) b(2)] obtain t where
    t: "fleet_loop devices a b (0, 0, []) = Inr t" by blast
  from a(1) b(1) t show ?thesis
    by (simp add: compare_pi_zero_fleet_def del: tally_simps)
qed

lemma compare_wireguard_total:
  assumes "wt_doc pre" and "wt_doc post"
  shows "\<exists>r. compare_wireguard pre post = Inr r"
proof -
  from assms have f: "field pre ''wireguard'' is_dict" "field post ''wireguard'' is_dict"
    by (simp_all add: wt_doc_def)
  from field_get[OF f(1), of "JObj []"] obtain a where
    a: "py_get pre ''wireguard'' (JObj []) = Inr a" "is_dict a" by auto
  from field_get[OF f(2), of "JObj []"] obtain b where
    b: "py_get post ''wireguard'' (JObj []) = Inr b" "is_dict b" by auto
  from neither_total[OF a(2) b(2)] obtain n where
    n: "neither a b ''interface_active'' = Inr n" by blast
  from lost_total[OF a(2) b(2)] obtain l where l: "lost a b ''interface_active'' = Inr l"
    by blast
  from is_dict_get[OF a(2)] obtain pa where
    pa: "py_get a ''peers_count'' (JInt 0) = Inr pa" by blast
  from is_dict_get[OF b(2)] obtain pb where
    pb: "py_get b ''peers_count'' (JInt 0) = Inr pb" by blast
  from a(1) b(1) n l pa pb show ?thesis
    by (simp add: compare_wireguard_def del: tally_simps)
qed

lemma flag_warning_total: "is_dict d \<Longrightarrow> \<exists>t'. flag_warning d k m t = Inr t'"
  by (cases t) (auto dest!: is_dict_E simp: flag_warning_def)

lemma compare_hardware_throttling_total:
  assumes "wt_doc pre" and "wt_doc post"
  shows "\<exists>r. compare_hardware_throttling pre post = Inr r"
proof -
  from assms have f: "field pre ''hardware'' (\<lambda>h. field h ''throttle_events'' is_dict)"
    "field post ''hardware'' (\<lambda>h. field h ''throttle_events'' is_dict)"
    by (simp_all add: wt_doc_def)
  from field_get[OF f(1), of "JObj []"] obtain a where
    a: "py_get pre ''hardware'' (JObj []) = Inr a" "field a ''throttle_events'' is_dict" by auto
  from field_get[OF f(2), of "JObj []"] obtain b where
    b: "py_get post ''hardware'' (JObj []) = Inr b" "field b ''throttle_events'' is_dict" by auto
  from field_E[OF a(2)] field_E[OF b(2)] have "is_dict a" "is_dict b" by auto
  from neither_total[OF this] obtain n where
    n: "neither a b ''throttle_events'' = Inr n" by blast
  from field_get[OF b(2), of "JObj []"] obtain th where
    th: "py_get b ''throttle_events'' (JObj []) = Inr th" "is_dict th" by auto
  from flag_warning_total[OF th(2)] obtain t1 where
    t1: "flag_warning th ''under_voltage'' Hw_under_voltage (0, 0, []) = Inr t1" by blast
  from flag_warning_total[OF th(2)] obtain t2 where
    t2: "flag_warning th ''currently_throttled'' Hw_throttled t1 = Inr t2" by blast
  from flag_warning_total[OF th(2)] obtain t3 where
    t3: "flag_warning th ''soft_temp_limit'' Hw_soft_temp t2 = Inr t3" by blast
  from a(1) b(1) n th(1) t1 t2 t3 show ?thesis
    by (simp add: compare_hardware_throttling_def del: tally_simps)
qed

lemma dict_of_get:
  assumes "dict_of P d" and "P dflt"
  shows "\<exists>v. py_get d k dflt = Inr v \<and> P v"
proof -
  from assms(1) obtain kvs where kvs: "d = JObj kvs" "list_all (\<lambda>kv. P (snd kv)) kvs"
    by (cases d) auto
  show ?thesis
  proof (cases "map_of kvs k")
    case None
    with kvs(1) assms(2) show ?thesis by simp
  next
    case (Some v)
    then have "(k, v) \<in> set kvs" by (rule map_of_SomeD)
    with kvs(2) have "P v" by (auto simp: list_all_iff)
    with kvs(1) Some show ?thesis by simp
  qed
qed

lemma critical_loop_total:
  "list_all (\<lambda>kv. field (snd kv) ''restarts'' is_int) items \<Longrightarrow>
   dict_of (\<lambda>s. field s ''restarts'' is_int) pre_crit \<Longrightarrow>
     \<exists>t'. critical_loop items pre_crit t = Inr t'"
proof (induction items arbitrary: t)
  case Nil
  show ?case by (cases t) simp
next
  case (Cons e items)
  from Cons.prems(1) have e: "field (snd e) ''restarts'' is_int"
    and items: "list_all (\<lambda>kv. field (snd kv) ''restarts'' is_int) items" by simp_all
  note IH = Cons.IH[OF items Cons.prems(2)]
  from field_get_any[OF e] obtain active where
    active: "py_get (snd e) ''active'' JNull = Inr active" by blast
  from dict_of_get[OF Cons.prems(2), of "JObj []" "fst e"] obtain pd where
    pd: "py_get pre_crit (fst e) (JObj []) = Inr pd" "field pd ''restarts'' is_int" by auto
  from field_get[OF pd(2), of "JInt 0"] obtain i where
    i: "py_get pd ''restarts'' (JInt 0) = Inr (JInt i)" by (auto dest!: is_int_E)
  from field_get[OF e, of "JInt 0"] obtain j where
    j: "py_get (snd e) ''restarts'' (JInt 0) = Inr (JInt j)" by (auto dest!: is_int_E)
  from active pd(1) i j IH show ?case
    by (simp add: py_gt_def py_sub_def del: tally_simps)
qed

lemma compare_critical_services_total:
  assumes "wt_doc pre" and "wt_doc post"
  shows "\<exists>r. compare_critical_services pre post = Inr r"
proof -
  from assms have f:
    "field pre ''critical_services'' (dict_of (\<lambda>s. field s ''restarts'' is_int))"
    "field post ''critical_services'' (dict_of (\<lambda>s. field s ''restarts'' is_int))"
    by (simp_all add: wt_doc_def)
  from field_get[OF f(1), of "JObj []"] obtain a where
    a: "py_get pre ''critical_services'' (JObj []) = Inr a"
       "dict_of (\<lambda>s. field s ''restarts'' is_int) a" by auto
  from field_get[OF f(2), of "JObj []"] obtain b where
    b: "py_get post ''critical_services'' (JObj []) = Inr b"
       "dict_of (\<lambda>s. field s ''restarts'' is_int) b" by auto
  from b(2) obtain items where
    items: "b = JObj items" "list_all (\<lambda>kv. field (snd kv) ''restarts'' is_int) items"
    by (cases b) auto
  from critical_loop_total[OF items(2) a(2)] obtain t where
    t: "critical_loop items a (0, 0, []) = Inr t" by blast
  from a(1) b(1) items(1) t show ?thesis
    by (simp add: compare_critical_services_def del: tally_simps)
qed

lemma checksum_loop_total: "is_dict post \<Longrightarrow> \<exists>t'. checksum_loop items post t = Inr t'"
proof (induction items arbitrary: t)
  case Nil
  show ?case by (cases t) simp
next
  case (Cons e items)
  from is_dict_get[OF Cons.prems] obtain h where
    h: "py_get post (fst e) (JStr ''missing'') = Inr h" by blast
  from Cons.IH[OF Cons.prems] h show ?case by (simp del: tally_simps)
qed

lemma compare_config_checksums_total:
  assumes "wt_doc pre" and "wt_doc post"
  shows "\<exists>r. compare_config_checksums pre post = Inr r"
proof -
  from assms have f: "field pre ''config_checksums'' is_dict"
    "field post ''config_checksums'' is_dict"
    by (simp_all add: wt_doc_def)
  from field_get[OF f(1), of "JObj []"] obtain a where
    a: "py_get pre ''config_checksums'' (JObj []) = Inr a" "is_dict a" by auto
  from field_get[OF f(2), of "JObj []"] obtain b where
    b: "py_get post ''config_checksums'' (JObj []) = Inr b" "is_dict b" by auto
  from a(2) obtain items where items: "a = JObj items" by (auto dest!: is_dict_E)
  from checksum_loop_total[OF b(2)] obtain t where
    t: "checksum_loop items b (0, 0, []) = Inr t" by blast
  from a(1) b(1) items t show ?thesis
    by (simp add: compare_config_checksums_def del: tally_simps)
qed

lemma compare_memory_detail_total:
  assumes "wt_doc post"
  shows "\<exists>r. compare_memory_detail pre post = Inr r"
proof -
  from assms have f: "field post ''memory_detail'' (\<lambda>m. field m ''swap_usage_percent'' is_int)"
    by (simp add: wt_doc_def)
  from field_get[OF f, of "JObj []"] obtain m where
    m: "py_get post ''memory_detail'' (JObj []) = Inr m"
       "field m ''swap_usage_percent'' is_int" by auto
  from field_get[OF m(2), of "JInt 0"] obtain i where
    i: "py_get m ''swap_usage_percent'' (JInt 0) = Inr (JInt i)" by (auto dest!: is_int_E)
  from m(1) i show ?thesis
    by (simp add: compare_memory_detail_def py_gt_def del: tally_simps)
qed

lemma validate_boot_info_total:
  assumes "wt_doc post"
  shows "\<exists>r. validate_boot_info int_of_str post = Inr r"
proof -
  from assms have f: "field post ''boot_info'' wt_boot" by (simp add: wt_doc_def)
  from field_get[OF f, of JNull] obtain b where
    b: "py_get post ''boot_info'' JNull = Inr b" "wt_boot b" by (auto simp: wt_boot_def)
  show ?thesis
  proof (cases "b = JNull")
    case True
    with b(1) show ?thesis by (simp add: validate_boot_info_def)
  next
    case False
    with b(2) have p: "field b ''phases_completed'' is_int"
      and d: "field b ''boot_duration_seconds'' number_or_string" by (simp_all add: wt_boot_def)
    from field_E[OF p] obtain kvs where kvs: "b = JObj kvs" by blast
    from b(1) kvs have g: "py_get post ''boot_info'' JNull = Inr (JObj kvs)" by simp
    from d kvs have dd: "\<forall>v. map_of kvs ''boot_duration_seconds'' = Some v \<longrightarrow> number_or_string v"
      by (auto split: option.splits)
    from p kvs obtain n where
      n: "(case map_of kvs ''phases_completed'' of None \<Rightarrow> JInt 0 | Some v \<Rightarrow> v) = JInt n"
      by (auto split: option.splits dest!: is_int_E)
    show ?thesis
    proof (cases "map_of kvs ''available'' = None \<or>
                  (\<exists>v. map_of kvs ''available'' = Some v \<and> py_truthy v)")
      case True
      from validate_boot_info_run[OF g True dd n[symmetric], of "n < 13" int_of_str]
      show ?thesis by auto
    next
      case False
      then obtain v where "map_of kvs ''available'' = Some v" "\<not> py_truthy v" by auto
      with g show ?thesis by (simp add: validate_boot_info_def)
    qed
  qed
qed

lemma sections_read_comparators: "map fst sections_read = comparators"
  by (simp add: sections_read_def comparators_def)

lemma absent_get: "absent d k \<Longrightarrow> py_get d k dflt = Inr dflt"
  by (cases d) (simp_all add: absent_def)

lemma no_findings_result [simp]: "no_findings (result n (0, 0, []))"
  by (simp add: no_findings_def)

lemma py_set_Nil [simp]: "py_set (JList []) = Inr []"
  by (simp add: py_set_def)

lemma compare_system_absent:
  "absent pre ''system'' \<Longrightarrow> absent post ''system'' \<Longrightarrow> absent post ''custom'' \<Longrightarrow>
     compare_system pre post = Inr (result ''system'' (0, 0, []))"
  by (simp add: compare_system_def absent_get check_disk_def cpu_temp_def py_gt_def py_add_def
      del: tally_simps)

lemma compare_services_absent:
  "absent pre ''services'' \<Longrightarrow> absent post ''services'' \<Longrightarrow>
     compare_services pre post = Inr (result ''services'' (0, 0, []))"
  by (simp add: compare_services_def service_set_def absent_get set_discard_def
      del: tally_simps)

lemma compare_docker_absent:
  "absent pre ''docker'' \<Longrightarrow> absent post ''docker'' \<Longrightarrow>
     compare_docker pre post = Inr (result ''docker'' (0, 0, []))"
  by (simp add: compare_docker_def absent_get del: tally_simps)

lemma compare_network_interfaces_absent:
  "absent pre ''network'' \<Longrightarrow> absent post ''network'' \<Longrightarrow>
     compare_network_interfaces pre post = Inr (result ''network'' (0, 0, []))"
  by (simp add: compare_network_interfaces_def network_field_def absent_get del: tally_simps)

lemma compare_usb_devices_absent:
  "absent pre ''usb_devices'' \<Longrightarrow> absent post ''usb_devices'' \<Longrightarrow>
     compare_usb_devices pre post = Inr (result ''usb_devices'' (0, 0, []))"
  by (simp add: compare_usb_devices_def absent_get del: tally_simps)

lemma compare_route_guardian_absent:
  "absent pre ''route_guardian'' \<Longrightarrow> absent post ''route_guardian'' \<Longrightarrow>
     compare_route_guardian pre post = Inr (result ''route_guardian'' (0, 0, []))"
  by (simp add: compare_route_guardian_def absent_get del: tally_simps)

lemma compare_pi_zero_fleet_absent:
  "absent pre ''pi_zero_fleet'' \<Longrightarrow> absent post ''pi_zero_fleet'' \<Longrightarrow>
     compare_pi_zero_fleet pre post = Inr (result ''pi_zero_fleet'' (0, 0, []))"
  by (simp add: compare_pi_zero_fleet_def absent_get del: tally_simps)

lemma compare_networkmanager_absent:
  "absent pre ''networkmanager'' \<Longrightarrow> absent post ''networkmanager'' \<Longrightarrow>
     compare_networkmanager pre post = Inr (result ''networkmanager'' (0, 0, []))"
  by (simp add: compare_networkmanager_def active_connections_def absent_get del: tally_simps)

lemma compare_wireguard_absent:
  "absent pre ''wireguard'' \<Longrightarrow> absent post ''wireguard'' \<Longrightarrow>
     compare_wireguard pre post = Inr (result ''wireguard'' (0, 0, []))"
  by (simp add: compare_wireguard_def neither_def absent_get del: tally_simps)

lemma compare_hardware_throttling_absent:
  "absent pre ''hardware'' \<Longrightarrow> absent post ''hardware'' \<Longrightarrow>
     compare_hardware_throttling pre post = Inr (result ''hardware_throttling'' (0, 0, []))"
  by (simp add: compare_hardware_throttling_def neither_def absent_get del: tally_simps)

lemma compare_critical_services_absent:
  "absent pre ''critical_services'' \<Longrightarrow> absent post ''critical_services'' \<Longrightarrow>
     compare_critical_services pre post = Inr (result ''critical_services'' (0, 0, []))"
  by (simp add: compare_critical_services_def absent_get del: tally_simps)

lemma compare_config_checksums_absent:
  "absent pre ''config_checksums'' \<Longrightarrow> absent post ''config_checksums'' \<Longrightarrow>
     compare_config_checksums pre post = Inr (result ''config_checksums'' (0, 0, []))"
  by (simp add: compare_config_checksums_def absent_get del: tally_simps)

lemma compare_memory_detail_absent:
  "absent post ''memory_detail'' \<Longrightarrow>
     compare_memory_detail pre post = Inr (result ''memory_detail'' (0, 0, []))"
  by (simp add: compare_memory_detail_def absent_get py_gt_def del: tally_simps)

lemma compare_cron_jobs_absent:
  "absent pre ''cron_jobs'' \<Longrightarrow> absent post ''cron_jobs'' \<Longrightarrow>
     compare_cron_jobs pre post = Inr (result ''cron_jobs'' (0, 0, []))"
  by (simp add: compare_cron_jobs_def absent_get del: tally_simps)

lemma validate_boot_info_absent:
  "absent post ''boot_info'' \<Longrightarrow>
     validate_boot_info int_of_str post = Inr (result ''boot_info'' (0, 0, []))"
  by (simp add: validate_boot_info_def absent_get del: tally_simps)

lemmas absent_results =
  compare_system_absent compare_services_absent compare_docker_absent
  compare_network_interfaces_absent compare_usb_devices_absent compare_route_guardian_absent
  compare_pi_zero_fleet_absent compare_networkmanager_absent compare_wireguard_absent
  compare_hardware_throttling_absent compare_critical_services_absent
  compare_config_checksums_absent compare_memory_detail_absent compare_cron_jobs_absent

lemma sections_read_absent:
  assumes "(c, ps, qs) \<in> set sections_read"
    and "\<forall>k \<in> set ps. absent pre k" and "\<forall>k \<in> set qs. absent post k"
  shows "\<exists>r. c pre post = Inr r \<and> no_findings r"
proof -
  from assms(1) have
    "c = compare_system \<and> ps = [''system''] \<and> qs = [''system'', ''custom''] \<or>
     c = compare_services \<and> ps = [''services''] \<and> qs = [''services''] \<or>
     c = compare_docker \<and> ps = [''docker''] \<and> qs = [''docker''] \<or>
     c = compare_network_interfaces \<and> ps = [''network''] \<and> qs = [''network''] \<or>
     c = compare_usb_devices \<and> ps = [''usb_devices''] \<and> qs = [''usb_devices''] \<or>
     c = compare_route_guardian \<and> ps = [''route_guardian''] \<and> qs = [''route_guardian''] \<or>
     c = compare_pi_zero_fleet \<and> ps = [''pi_zero_fleet''] \<and> qs = [''pi_zero_fleet''] \<or>
     c = compare_networkmanager \<and> ps = [''networkmanager''] \<and> qs = [''networkmanager''] \<or>
     c = compare_wireguard \<and> ps = [''wireguard''] \<and> qs = [''wireguard''] \<or>
     c = compare_hardware_throttling \<and> ps = [''hardware''] \<and> qs = [''hardware''] \<or>
     c = compare_critical_services \<and> ps = [''critical_services''] \<and>
       qs = [''critical_services''] \<or>
     c = compare_config_checksums \<and> ps = [''config_checksums''] \<and>
       qs = [''config_checksums''] \<or>
     c = compare_memory_detail \<and> ps = [] \<and> qs = [''memory_detail''] \<or>
     c = compare_cron_jobs \<and> ps = [''cron_jobs''] \<and> qs = [''cron_jobs'']"
    unfolding sections_read_def by simp
  with assms(2,3) show ?thesis
    by (elim disjE conjE; simp add: absent_results del: tally_simps)
qed

lemma comparators_return:
  assumes "wt_doc pre" and "wt_doc post"
  shows "\<forall>c \<in> set comparators. \<exists>r. c pre post = Inr r"
  unfolding comparators_def
  using compare_system_total[OF assms] compare_services_total[OF assms]
    compare_docker_total[OF assms] compare_network_interfaces_total[OF assms]
    compare_usb_devices_total[OF assms] compare_route_guardian_total[OF assms]
    compare_pi_zero_fleet_total[OF assms] compare_networkmanager_total[OF assms]
    compare_wireguard_total[OF assms] compare_hardware_throttling_total[OF assms]
    compare_critical_services_total[OF assms] compare_config_checksums_total[OF assms]
    compare_memory_detail_total[OF assms(2), of pre] compare_cron_jobs_total[OF assms]
  by simp




end
